theory Spec2Isabelle
  imports Complex_Main "HOL-Library.Word" "HOL-Library.Log_Nat"
begin

section \<open>pho: the image transform pipeline and the image list of \<^verbatim>\<open>src/pho.c\<close>\<close>

text \<open>
  A shallow embedding of \<^verbatim>\<open>src/pho.c\<close>. The globals of the C file are the fields of
  one \<open>state\<close> record that every function takes and returns. Pointers to \<open>PhoImage\<close> are
  addresses (\<open>0\<close> is the null pointer) into a heap of records. What the C code does with
  an invalid pointer, with pixel memory out of range or with a \<open>double\<close> that does not fit
  an \<open>int\<close> is undefined behaviour: the model returns a \<open>fault\<close> there. The C \<open>int\<close>
  is modelled by \<open>int\<close>. In \<open>RotateImage\<close>, whose byte offsets grow with the size of the
  buffer and whose rotation argument is any \<open>int\<close>, every operation is tested against the
  32-bit range, and an overflow is a \<open>fault\<close> as well.
  Console output (\<open>printf\<close>) is not modelled. The calls into GdkPixbuf, GLib, the dialogs
  and the window code are logged, in order, in the field \<open>events\<close>.
\<close>

subsection \<open>C integer remainder\<close>

text \<open>C's \<open>/\<close> truncates towards zero and \<open>%\<close> takes the sign of the dividend.\<close>

definition c_div :: "int \<Rightarrow> int \<Rightarrow> int" where
  "c_div a b = sgn a * sgn b * (\<bar>a\<bar> div \<bar>b\<bar>)"

definition c_mod :: "int \<Rightarrow> int \<Rightarrow> int" where
  "c_mod a b = a - c_div a b * b"

subsection \<open>The C type int\<close>

text \<open>
  An \<open>int\<close> has 32 bits. Where the range matters, the model computes in the integers and
  tests the result: a signed operation whose result is out of range is undefined behaviour.
\<close>

definition in_int :: "int \<Rightarrow> bool" where
  "in_int v \<longleftrightarrow> - 2147483648 \<le> v \<and> v \<le> 2147483647"

subsection \<open>The C type double\<close>

text \<open>
  A \<open>double\<close> is an IEEE 754 binary64 value: a finite one is a rational \<open>m * 2^e\<close> with
  \<open>\<bar>m\<bar> < 2^53\<close> and \<open>-1074 \<le> e\<close>, and every operation rounds its exact result to the nearest
  such value, ties to the even mantissa. The sign of zero is not kept: the code divides
  only by converted integers, whose zero is positive.
\<close>

datatype double = DFin rat | DPosInf | DNegInf | DNaN

definition pow2 :: "int \<Rightarrow> rat" where
  "pow2 k = (if 0 \<le> k then 2 ^ nat k else 1 / 2 ^ nat (- k))"

text \<open>For \<open>0 < x\<close>: the \<open>e\<close> with \<open>2^e \<le> x < 2^(e+1)\<close>.\<close>

definition floor_log2 :: "rat \<Rightarrow> int" where
  "floor_log2 x = (if 1 \<le> x then bitlen \<lfloor>x\<rfloor> - 1 else - bitlen (\<lceil>1 / x\<rceil> - 1))"

definition round_even :: "rat \<Rightarrow> int" where
  "round_even y =
     (let f = \<lfloor>y\<rfloor>; d = y - of_int f
      in if d < 1 / 2 then f else if 1 / 2 < d then f + 1 else if even f then f else f + 1)"

text \<open>
  Rounding to binary64: the exponent \<open>e\<close> of the last place (not below that of the
  subnormal numbers), the mantissa \<open>m\<close> rounded to an integer, and an infinity when the
  result is \<open>2^1024\<close> or more.
\<close>

definition d_round :: "rat \<Rightarrow> double" where
  "d_round x =
     (if x = 0 then DFin 0
      else
        let e = max (floor_log2 \<bar>x\<bar> - 52) (- 1074);
            m = round_even (x / pow2 e)
        in if 971 < e \<or> (e = 971 \<and> 2 ^ 53 \<le> \<bar>m\<bar>)
           then (if 0 < x then DPosInf else DNegInf)
           else DFin (of_int m * pow2 e))"

definition d_of_int :: "int \<Rightarrow> double" where
  "d_of_int n = d_round (of_int n)"

fun d_sign :: "double \<Rightarrow> int" where
  "d_sign (DFin a) = (if 0 < a then 1 else if a < 0 then - 1 else 0)"
| "d_sign DPosInf = 1"
| "d_sign DNegInf = - 1"
| "d_sign DNaN = 0"

definition d_inf :: "int \<Rightarrow> double" where
  "d_inf sg = (if 0 < sg then DPosInf else if sg < 0 then DNegInf else DNaN)"

fun d_mul :: "double \<Rightarrow> double \<Rightarrow> double" where
  "d_mul DNaN y = DNaN"
| "d_mul x DNaN = DNaN"
| "d_mul (DFin a) (DFin b) = d_round (a * b)"
| "d_mul x y = d_inf (d_sign x * d_sign y)"

fun d_div :: "double \<Rightarrow> double \<Rightarrow> double" where
  "d_div DNaN y = DNaN"
| "d_div x DNaN = DNaN"
| "d_div (DFin a) (DFin b) = (if b = 0 then d_inf (d_sign (DFin a)) else d_round (a / b))"
| "d_div (DFin a) y = DFin 0"
| "d_div x (DFin b) = d_inf (d_sign x * (if b < 0 then - 1 else 1))"
| "d_div x y = DNaN"

text \<open>\<open>x > y\<close> on doubles: false as soon as one side is a NaN.\<close>

fun d_gt :: "double \<Rightarrow> double \<Rightarrow> bool" where
  "d_gt DNaN y = False"
| "d_gt x DNaN = False"
| "d_gt (DFin a) (DFin b) = (b < a)"
| "d_gt DPosInf y = (y \<noteq> DPosInf)"
| "d_gt x DPosInf = False"
| "d_gt x DNegInf = (x \<noteq> DNegInf)"
| "d_gt DNegInf y = False"

text \<open>
  The conversion \<open>(int) d\<close> truncates towards zero; it is undefined for a NaN, an infinity
  and a value outside the range of \<open>int\<close> (\<open>None\<close>).
\<close>

definition trunc_rat :: "rat \<Rightarrow> int" where
  "trunc_rat a = (if 0 \<le> a then \<lfloor>a\<rfloor> else - \<lfloor>- a\<rfloor>)"

fun d_to_int :: "double \<Rightarrow> int option" where
  "d_to_int (DFin a) =
     (let t = trunc_rat a in if - (2 ^ 31) \<le> t \<and> t < 2 ^ 31 then Some t else None)"
| "d_to_int x = None"

subsection \<open>Data: pixel buffers, image records, the globals\<close>

type_synonym addr = nat
type_synonym guchar = "8 word"

datatype fault = BadPointer | OutOfBounds | FloatToInt | OutOfFuel | IntOverflow

text \<open>A \<open>GdkPixbuf\<close>: its geometry and its block of samples.\<close>

record GdkPixbuf =
  width :: int
  height :: int
  rowstride :: int
  n_channels :: int
  has_alpha :: bool
  bits_per_sample :: int
  pixels :: "guchar list"

text \<open>\<open>struct PhoImage\<close> of \<^verbatim>\<open>pho.h\<close>, with the fields \<^verbatim>\<open>pho.c\<close> uses.\<close>

record PhoImage =
  filename :: string
  trueWidth :: int
  trueHeight :: int
  curWidth :: int
  curHeight :: int
  curRot :: int
  exifRot :: int
  comment :: "string option"
  next_img :: addr
  prev_img :: addr

text \<open>The values of \<open>gScaleMode\<close> and \<open>gDisplayMode\<close>; any other integer is bogus.\<close>

datatype ScaleMode =
  PHO_SCALE_NORMAL | PHO_SCALE_FULLSCREEN | PHO_SCALE_FULLSIZE
  | PHO_SCALE_IMG_RATIO | PHO_SCALE_SCREEN_RATIO | PHO_SCALE_BOGUS int

datatype DisplayMode = PHO_DISPLAY_NORMAL | PHO_DISPLAY_PRESENTATION | PHO_DISPLAY_KEYWORDS

datatype event =
  EvLoad string | EvRotate int | EvScale int int | EvPrompt string | EvPrepareWindow
  | EvEndSession | EvTimeoutAdd int | EvUnlink string

text \<open>
  The globals of \<^verbatim>\<open>pho.c\<close>, the heap of image records, and the world outside:
  \<open>files\<close> is what \<open>gdk_pixbuf_new_from_file\<close> decodes from a path (\<open>None\<close>: it fails);
  \<open>has_exif\<close> and \<open>exif_orientation\<close> are \<open>HasExif\<close> and \<open>ExifGetInt(ExifOrientation)\<close>
  after \<open>ExifReadInfo\<close> of a path; \<open>alloc_ok w h\<close> says whether the allocation of a
  \<open>w\<close> by \<open>h\<close> buffer succeeds and \<open>fresh_bytes\<close> is the content of fresh memory;
  \<open>scale_simple\<close> is \<open>gdk_pixbuf_scale_simple\<close> on a buffer; \<open>window_size\<close> is what
  \<open>gtk_window_get_size\<close> reports; \<open>unlink_fails\<close> says for which paths \<open>unlink\<close> fails;
  \<open>timeouts\<close> are the GLib timeouts armed and not yet fired, \<open>last_source_id\<close> the id
  GLib gave last.
\<close>

record state =
  heap :: "addr \<Rightarrow> PhoImage option"
  gFirstImage :: addr
  gCurImage :: addr
  gMonitorWidth :: int
  gMonitorHeight :: int
  gImage :: "GdkPixbuf option"
  gScaleMode :: ScaleMode
  gScaleRatio :: double
  gDisplayMode :: DisplayMode
  gDelaySeconds :: int
  gPendingTimeout :: int
  files :: "string \<Rightarrow> GdkPixbuf option"
  has_exif :: "string \<Rightarrow> bool"
  exif_orientation :: "string \<Rightarrow> int"
  alloc_ok :: "int \<Rightarrow> int \<Rightarrow> bool"
  fresh_bytes :: "nat \<Rightarrow> guchar"
  scale_simple :: "GdkPixbuf \<Rightarrow> int \<Rightarrow> int \<Rightarrow> GdkPixbuf option"
  window_size :: "int \<times> int"
  unlink_fails :: "string \<Rightarrow> bool"
  timeouts :: "(int \<times> int) list"
  last_source_id :: nat
  events :: "event list"

definition emit :: "event \<Rightarrow> state \<Rightarrow> state" where
  "emit e s = s\<lparr>events := events s @ [e]\<rparr>"

text \<open>Reading through a \<open>PhoImage*\<close>, and the stores through it. The null pointer and a
  freed record cannot be read.\<close>

definition deref :: "state \<Rightarrow> addr \<Rightarrow> PhoImage option" where
  "deref s p = (if p = 0 then None else heap s p)"

definition set_img :: "addr \<Rightarrow> PhoImage \<Rightarrow> state \<Rightarrow> state" where
  "set_img p img s = s\<lparr>heap := (heap s)(p := Some img)\<rparr>"

definition then_do :: "fault + 'a \<Rightarrow> ('a \<Rightarrow> fault + 'b) \<Rightarrow> fault + 'b" where
  "then_do m f = (case m of Inl e \<Rightarrow> Inl e | Inr x \<Rightarrow> f x)"

subsection \<open>GdkPixbuf\<close>

text \<open>
  The getters of GdkPixbuf return \<open>-1\<close> on a null buffer. \<open>gdk_pixbuf_new\<close> gives an RGB
  buffer of 3 or 4 channels whose rows are aligned to 32 bits, or null when a dimension
  is not positive, the sample size is not 8 or memory is short.
\<close>

definition gdk_pixbuf_get_width :: "GdkPixbuf option \<Rightarrow> int" where
  "gdk_pixbuf_get_width b = (case b of None \<Rightarrow> - 1 | Some pb \<Rightarrow> width pb)"

definition gdk_pixbuf_get_height :: "GdkPixbuf option \<Rightarrow> int" where
  "gdk_pixbuf_get_height b = (case b of None \<Rightarrow> - 1 | Some pb \<Rightarrow> height pb)"

definition gdk_pixbuf_new :: "state \<Rightarrow> bool \<Rightarrow> int \<Rightarrow> int \<Rightarrow> int \<Rightarrow> GdkPixbuf option" where
  "gdk_pixbuf_new s alpha bitsper w h =
     (if bitsper \<noteq> 8 \<or> w \<le> 0 \<or> h \<le> 0 \<or> \<not> alloc_ok s w h then None
      else
        let channels = (if alpha then 4 else 3);
            rs = ((w * channels + 3) div 4) * 4
        in Some \<lparr>width = w, height = h, rowstride = rs, n_channels = channels,
                  has_alpha = alpha, bits_per_sample = bitsper,
                  pixels = map (fresh_bytes s) [0..<nat (rs * h)]\<rparr>)"

text \<open>The sample \<open>i\<close> of the pixel \<open>(x, y)\<close> of a buffer.\<close>

definition pixel_index :: "GdkPixbuf \<Rightarrow> int \<Rightarrow> int \<Rightarrow> int \<Rightarrow> int" where
  "pixel_index pb x y i = y * rowstride pb + x * n_channels pb + i"

definition get_pixel :: "GdkPixbuf \<Rightarrow> int \<Rightarrow> int \<Rightarrow> int \<Rightarrow> guchar" where
  "get_pixel pb x y i = pixels pb ! nat (pixel_index pb x y i)"

text \<open>
  What GdkPixbuf guarantees of every buffer it hands out: positive dimensions, 8-bit
  samples, 3 channels or 4 with alpha, rows at least as long as their pixels, and a block
  that holds every row.
\<close>

definition wf_pixbuf :: "GdkPixbuf \<Rightarrow> bool" where
  "wf_pixbuf pb \<longleftrightarrow>
     0 < width pb \<and> 0 < height pb \<and> bits_per_sample pb = 8 \<and>
     n_channels pb = (if has_alpha pb then 4 else 3) \<and>
     width pb * n_channels pb \<le> rowstride pb \<and>
     rowstride pb * (height pb - 1) + width pb * n_channels pb \<le> int (length (pixels pb))"

subsection \<open>LoadImageFromFile (lines 67-114)\<close>

text \<open>Lines 93-111: what a successful load writes into the record.\<close>

definition loaded_record :: "state \<Rightarrow> PhoImage \<Rightarrow> GdkPixbuf \<Rightarrow> PhoImage" where
  "loaded_record s img pb =
     (let img1 = img\<lparr>curWidth := width pb, curHeight := height pb\<rparr>;
          rot = exif_orientation s (filename img)
      in if trueWidth img1 = 0 \<or> trueHeight img1 = 0
         then img1\<lparr>trueWidth := curWidth img1, trueHeight := curHeight img1,
                   exifRot := (if has_exif s (filename img) \<and> rot \<noteq> 0 then rot else 0)\<rparr>
         else img1)"

definition LoadImageFromFile :: "addr \<Rightarrow> state \<Rightarrow> fault + (int \<times> state)" where
  "LoadImageFromFile p s =
     (if p = 0 then Inr (- 1, s)
      else
        case deref s p of
          None \<Rightarrow> Inl BadPointer
        | Some img \<Rightarrow>
            let s1 = emit (EvLoad (filename img)) (s\<lparr>gImage := None\<rparr>)
            in case files s (filename img) of
                 None \<Rightarrow> Inr (- 1, s1)
               | Some pb \<Rightarrow> Inr (0, set_img p (loaded_record s img pb) (s1\<lparr>gImage := Some pb\<rparr>)))"

subsection \<open>RotateImage (lines 550-657)\<close>

datatype rot_exit = IllegalValue | MemFault | Overflow

text \<open>The \<open>switch\<close> of lines 611-628: where the pixel \<open>(x, y)\<close> goes.\<close>

definition rotate_target :: "int \<Rightarrow> int \<Rightarrow> int \<Rightarrow> int \<Rightarrow> int \<Rightarrow> (int \<times> int) option" where
  "rotate_target degrees cw ch x y =
     (if degrees = 90 then Some (ch - y - 1, x)
      else if degrees = 270 then Some (y, cw - x - 1)
      else if degrees = 180 then Some (cw - x - 1, ch - y - 1)
      else None)"

text \<open>The assignment of lines 640-641; an index outside a block is undefined behaviour.\<close>

definition copy_byte ::
  "guchar list \<Rightarrow> int \<Rightarrow> int \<Rightarrow> rot_exit + guchar list \<Rightarrow> rot_exit + guchar list" where
  "copy_byte oldpixels src dst acc =
     (case acc of
        Inl e \<Rightarrow> Inl e
      | Inr newpixels \<Rightarrow>
          if 0 \<le> src \<and> src < int (length oldpixels) \<and> 0 \<le> dst \<and> dst < int (length newpixels)
          then Inr (newpixels[nat dst := oldpixels ! nat src])
          else Inl MemFault)"

text \<open>
  The index expression \<open>y*rowstride + x*nchannels + i\<close> of lines 640-641, in \<open>int\<close>: the two
  products, their sum, and the sum with \<open>i\<close>.
\<close>

definition pixel_offset :: "int \<Rightarrow> int \<Rightarrow> int \<Rightarrow> int \<Rightarrow> int \<Rightarrow> int option" where
  "pixel_offset y stride x nchannels i =
     (if in_int (y * stride) \<and> in_int (x * nchannels) \<and>
         in_int (y * stride + x * nchannels) \<and> in_int (y * stride + x * nchannels + i)
      then Some (y * stride + x * nchannels + i) else None)"

definition copy_sample ::
  "guchar list \<Rightarrow> int option \<Rightarrow> int option \<Rightarrow> rot_exit + guchar list \<Rightarrow> rot_exit + guchar list" where
  "copy_sample oldpixels src dst acc =
     (case acc of
        Inl e \<Rightarrow> Inl e
      | Inr newpixels \<Rightarrow>
          (case (src, dst) of
             (Some a, Some b) \<Rightarrow> copy_byte oldpixels a b acc
           | _ \<Rightarrow> Inl Overflow))"

text \<open>The body of the two outer loops, for one \<open>(x, y)\<close>: lines 609-642.\<close>

definition rotate_pixel ::
  "int \<Rightarrow> int \<Rightarrow> int \<Rightarrow> int \<Rightarrow> int \<Rightarrow> int \<Rightarrow> guchar list \<Rightarrow> int \<Rightarrow> int
     \<Rightarrow> rot_exit + guchar list \<Rightarrow> rot_exit + guchar list" where
  "rotate_pixel degrees cw ch nchannels oldrowstride newrowstride oldpixels x y acc =
     (case acc of
        Inl e \<Rightarrow> Inl e
      | Inr newpixels \<Rightarrow>
          (case rotate_target degrees cw ch x y of
             None \<Rightarrow> Inl IllegalValue
           | Some (newx, newy) \<Rightarrow>
               fold (\<lambda>i. copy_sample oldpixels
                            (pixel_offset y oldrowstride x nchannels i)
                            (pixel_offset newy newrowstride newx nchannels i))
                 [0..nchannels - 1] (Inr newpixels)))"

text \<open>The loops of lines 605-644.\<close>

definition rotate_pixels ::
  "int \<Rightarrow> int \<Rightarrow> int \<Rightarrow> int \<Rightarrow> int \<Rightarrow> int \<Rightarrow> guchar list \<Rightarrow> guchar list
     \<Rightarrow> rot_exit + guchar list" where
  "rotate_pixels degrees cw ch nchannels oldrowstride newrowstride oldpixels newpixels =
     fold (\<lambda>x. fold (rotate_pixel degrees cw ch nchannels oldrowstride newrowstride oldpixels x)
                  [0..ch - 1])
       [0..cw - 1] (Inr newpixels)"

definition RotateImage :: "addr \<Rightarrow> int \<Rightarrow> state \<Rightarrow> fault + (int \<times> state)" where
  "RotateImage p degrees0 s0 =
     (let s = emit (EvRotate degrees0) s0 in
      case gImage s of
        None \<Rightarrow> Inr (1, s)
      | Some old \<Rightarrow>
          if \<not> in_int (degrees0 + 360) then Inl IntOverflow
          else
          let degrees = c_mod (degrees0 + 360) 360 in
          if degrees = 0 then Inr (0, s)
          else
            case deref s p of
              None \<Rightarrow> Inl BadPointer
            | Some img \<Rightarrow>
                let newWidth = (if degrees = 90 \<or> degrees = 270 then curHeight img else curWidth img);
                    newHeight = (if degrees = 90 \<or> degrees = 270 then curWidth img else curHeight img);
                    newTrueWidth =
                      (if degrees = 90 \<or> degrees = 270 then trueHeight img else trueWidth img);
                    newTrueHeight =
                      (if degrees = 90 \<or> degrees = 270 then trueWidth img else trueHeight img)
                in case gdk_pixbuf_new s (has_alpha old) (bits_per_sample old) newWidth newHeight of
                     None \<Rightarrow> Inr (1, s)
                   | Some newImage \<Rightarrow>
                       (case rotate_pixels degrees (curWidth img) (curHeight img) (n_channels old)
                               (rowstride old) (rowstride newImage) (pixels old) (pixels newImage) of
                          Inl IllegalValue \<Rightarrow> Inr (1, s)
                        | Inl MemFault \<Rightarrow> Inl OutOfBounds
                        | Inl Overflow \<Rightarrow> Inl IntOverflow
                        | Inr newpixels \<Rightarrow>
                            if in_int (curRot img + degrees) \<and> in_int (curRot img + degrees + 360)
                            then
                              Inr (0, set_img p
                                        (img\<lparr>curWidth := newWidth, curHeight := newHeight,
                                             trueWidth := newTrueWidth, trueHeight := newTrueHeight,
                                             curRot := c_mod (curRot img + degrees + 360) 360\<rparr>)
                                        (s\<lparr>gImage := Some (newImage\<lparr>pixels := newpixels\<rparr>)\<rparr>))
                            else Inl IntOverflow))"

subsection \<open>ScaleToFit (lines 190-202)\<close>

definition ScaleToFit :: "int \<Rightarrow> int \<Rightarrow> int \<Rightarrow> int \<Rightarrow> fault + (int \<times> int)" where
  "ScaleToFit new_width new_height max_width max_height =
     (let xratio = d_div (d_of_int max_width) (d_of_int new_width);
          yratio = d_div (d_of_int max_height) (d_of_int new_height);
          ratio = (if d_gt xratio yratio then yratio else xratio)
      in case d_to_int (d_mul ratio (d_of_int new_width)) of
           None \<Rightarrow> Inl FloatToInt
         | Some w \<Rightarrow>
             (case d_to_int (d_mul ratio (d_of_int new_height)) of
                None \<Rightarrow> Inl FloatToInt
              | Some h \<Rightarrow> Inr (w, h)))"

subsection \<open>ScaleAndRotate (lines 218-448)\<close>

text \<open>\<open>n *= r\<close> for an \<open>int n\<close> and a \<open>double r\<close>.\<close>

definition scale_by :: "int \<Rightarrow> double \<Rightarrow> fault + int" where
  "scale_by n r = (case d_to_int (d_mul (d_of_int n) r) of None \<Rightarrow> Inl FloatToInt | Some v \<Rightarrow> Inr v)"

text \<open>Lines 279-284 and 293-298, with \<open>NORMAL_SCALE_SLOP\<close> 5.\<close>

definition snap_to_current :: "int \<Rightarrow> int \<Rightarrow> int \<Rightarrow> int \<Rightarrow> int \<times> int" where
  "snap_to_current cur_width cur_height new_width new_height =
     (if \<bar>cur_width - new_width\<bar> + \<bar>cur_height - new_height\<bar> < 5
      then (cur_width, cur_height) else (new_width, new_height))"

text \<open>
  The chain of scale modes, lines 253-343: the target size \<open>(new_width, new_height)\<close>
  from the working copies of the true and the current size. In the full-screen mode
  the assignments of lines 326-327 are overwritten by lines 335-336.
\<close>

definition normal_target :: "state \<Rightarrow> int \<Rightarrow> int \<Rightarrow> int \<Rightarrow> int \<Rightarrow> fault + (int \<times> int)" where
  "normal_target s true_width true_height cur_width cur_height =
     then_do (if gMonitorWidth s < true_width \<or> gMonitorHeight s < true_height
              then ScaleToFit true_width true_height (gMonitorWidth s) (gMonitorHeight s)
              else Inr (true_width, true_height)) (\<lambda>(w, h).
     then_do (scale_by w (gScaleRatio s)) (\<lambda>new_width.
     then_do (scale_by h (gScaleRatio s)) (\<lambda>new_height.
       Inr (snap_to_current cur_width cur_height new_width new_height))))"

definition target_size :: "state \<Rightarrow> int \<Rightarrow> int \<Rightarrow> int \<Rightarrow> int \<Rightarrow> fault + (int \<times> int)" where
  "target_size s true_width true_height cur_width cur_height =
     (case gScaleMode s of
        PHO_SCALE_FULLSIZE \<Rightarrow> Inr (true_width, true_height)
      | PHO_SCALE_NORMAL \<Rightarrow> normal_target s true_width true_height cur_width cur_height
      | PHO_SCALE_SCREEN_RATIO \<Rightarrow> normal_target s true_width true_height cur_width cur_height
      | PHO_SCALE_IMG_RATIO \<Rightarrow>
          then_do (scale_by true_width (gScaleRatio s)) (\<lambda>new_width.
          then_do (scale_by true_height (gScaleRatio s)) (\<lambda>new_height.
            Inr (snap_to_current cur_width cur_height new_width new_height)))
      | PHO_SCALE_FULLSCREEN \<Rightarrow>
          (let screen = (if gDisplayMode s = PHO_DISPLAY_PRESENTATION then window_size s
                         else (gMonitorWidth s, gMonitorHeight s));
               xratio = d_div (d_of_int (fst screen)) (d_of_int true_width);
               yratio = d_div (d_of_int (snd screen)) (d_of_int true_height);
               xratio' = (if d_gt xratio yratio then yratio else xratio)
           in case d_to_int (d_mul xratio' (d_of_int true_width)) of
                None \<Rightarrow> Inl FloatToInt
              | Some new_width \<Rightarrow>
                  (case d_to_int (d_mul xratio' (d_of_int true_height)) of
                     None \<Rightarrow> Inl FloatToInt
                   | Some new_height \<Rightarrow> Inr (new_width, new_height)))
      | PHO_SCALE_BOGUS m \<Rightarrow> Inr (cur_width, cur_height))"

text \<open>The local variables of \<open>ScaleAndRotate\<close> that live across its steps.\<close>

record sar_locals =
  l_degrees :: int
  l_aspect_changing :: bool
  l_true_width :: int
  l_true_height :: int
  l_cur_width :: int
  l_cur_height :: int
  l_new_width :: int
  l_new_height :: int

text \<open>
  Lines 220-343: the rotation is normalised, the image is loaded when its true size is
  not known yet (the local copies were read before and keep their old values), the
  copies are swapped for a quarter turn, and the target size is computed.
\<close>

definition sar_plan :: "addr \<Rightarrow> int \<Rightarrow> state \<Rightarrow> fault + (sar_locals \<times> state)" where
  "sar_plan p degrees0 s =
     (case deref s p of
        None \<Rightarrow> Inl BadPointer
      | Some img \<Rightarrow>
          let degrees = c_mod (degrees0 + 360) 360;
              aspect_changing = (c_mod degrees 180 \<noteq> 0)
          in then_do (if trueWidth img = 0 \<or> trueHeight img = 0 then LoadImageFromFile p s
                      else Inr (0, s)) (\<lambda>(e, s1).
             let true_width = (if aspect_changing then trueHeight img else trueWidth img);
                 true_height = (if aspect_changing then trueWidth img else trueHeight img);
                 cur_width = (if aspect_changing then curHeight img else curWidth img);
                 cur_height = (if aspect_changing then curWidth img else curHeight img)
             in then_do (target_size s1 true_width true_height cur_width cur_height)
                  (\<lambda>(new_width, new_height).
                     Inr (\<lparr>l_degrees = degrees, l_aspect_changing = aspect_changing,
                           l_true_width = true_width, l_true_height = true_height,
                           l_cur_width = cur_width, l_cur_height = cur_height,
                           l_new_width = new_width, l_new_height = new_height\<rparr>, s1))))"

text \<open>Line 351-352: the test "getting bigger, need to reload".\<close>

definition needs_reload :: "sar_locals \<Rightarrow> bool" where
  "needs_reload l \<longleftrightarrow>
     (l_cur_width l < l_new_width l \<or> l_cur_height l < l_new_height l) \<and>
     (l_cur_width l < l_true_width l \<and> l_cur_height l < l_true_height l)"

text \<open>Lines 350-380.\<close>

definition sar_reload :: "addr \<Rightarrow> sar_locals \<Rightarrow> state \<Rightarrow> fault + (sar_locals \<times> state)" where
  "sar_reload p l s =
     (if needs_reload l then
        case deref s p of
          None \<Rightarrow> Inl BadPointer
        | Some img \<Rightarrow>
            let degrees = c_mod (l_degrees l + curRot img + 360) 360
            in then_do (LoadImageFromFile p (set_img p (img\<lparr>curRot := 0\<rparr>) s)) (\<lambda>(e, s1).
               let aspect_changing = (c_mod (degrees + 360) 180 \<noteq> 0);
                   w = (if aspect_changing then gdk_pixbuf_get_height (gImage s1)
                        else gdk_pixbuf_get_width (gImage s1));
                   h = (if aspect_changing then gdk_pixbuf_get_width (gImage s1)
                        else gdk_pixbuf_get_height (gImage s1))
               in case deref s1 p of
                    None \<Rightarrow> Inl BadPointer
                  | Some img1 \<Rightarrow>
                      Inr (l\<lparr>l_degrees := degrees, l_aspect_changing := aspect_changing,
                             l_true_width := w, l_true_height := h,
                             l_cur_width := w, l_cur_height := h\<rparr>,
                           set_img p (img1\<lparr>trueWidth := w, trueHeight := h\<rparr>) s1))
      else Inr (l, s))"

text \<open>Line 390: the test "rotate before scaling".\<close>

definition rotates_first :: "sar_locals \<Rightarrow> bool" where
  "rotates_first l \<longleftrightarrow>
     l_degrees l \<noteq> 0 \<and> (l_cur_width l < l_new_width l \<or> l_cur_height l < l_new_height l)"

text \<open>Lines 390-402; the result carries \<open>(unrot_new_width, unrot_new_height)\<close>.\<close>

definition sar_rotate_first ::
  "addr \<Rightarrow> sar_locals \<Rightarrow> state \<Rightarrow> fault + (sar_locals \<times> (int \<times> int) \<times> state)" where
  "sar_rotate_first p l s =
     (if rotates_first l then
        then_do (RotateImage p (l_degrees l) s) (\<lambda>(r, s1).
          Inr (l\<lparr>l_degrees := 0\<rparr>, (l_new_width l, l_new_height l), s1))
      else if l_aspect_changing l then Inr (l, (l_new_height l, l_new_width l), s)
      else Inr (l, (l_new_width l, l_new_height l), s))"

text \<open>
  Lines 404-430. \<open>gdk_pixbuf_scale_simple\<close> gives null on a null source. When the scaling
  fails the function returns at line 422: \<open>Aborted\<close>.
\<close>

datatype sar_outcome = Aborted state | Scaled sar_locals state

definition scale_failure_message :: string where
  "scale_failure_message = ''Couldn't scale up: probably out of memory''"

definition sar_scale ::
  "addr \<Rightarrow> sar_locals \<Rightarrow> int \<times> int \<Rightarrow> state \<Rightarrow> fault + sar_outcome" where
  "sar_scale p l unrot s =
     (case deref s p of
        None \<Rightarrow> Inl BadPointer
      | Some img \<Rightarrow>
          if fst unrot \<noteq> curWidth img \<or> snd unrot \<noteq> curHeight img then
            let s1 = emit (EvScale (fst unrot) (snd unrot)) s;
                newimage = (case gImage s1 of None \<Rightarrow> None
                            | Some pb \<Rightarrow> scale_simple s1 pb (fst unrot) (snd unrot))
            in if newimage = None \<or> gdk_pixbuf_get_width newimage < 1
               then Inr (Aborted (emit (EvPrompt scale_failure_message) s1))
               else Inr (Scaled (l\<lparr>l_cur_width := gdk_pixbuf_get_width newimage,
                                     l_cur_height := gdk_pixbuf_get_height newimage\<rparr>)
                           (s1\<lparr>gImage := newimage\<rparr>))
          else Inr (Scaled l s))"

text \<open>Lines 432-447.\<close>

definition sar_finish :: "addr \<Rightarrow> sar_locals \<Rightarrow> state \<Rightarrow> fault + state" where
  "sar_finish p l s =
     (case deref s p of
        None \<Rightarrow> Inl BadPointer
      | Some img \<Rightarrow>
          let s1 = set_img p (img\<lparr>curWidth := l_cur_width l, curHeight := l_cur_height l\<rparr>) s
          in then_do (if l_degrees l \<noteq> 0 then RotateImage p (l_degrees l) s1 else Inr (0, s1))
               (\<lambda>(r, s2). Inr (emit EvPrepareWindow s2)))"

definition sar_tail :: "addr \<Rightarrow> sar_locals \<Rightarrow> state \<Rightarrow> fault + state" where
  "sar_tail p l s =
     then_do (sar_rotate_first p l s) (\<lambda>(l1, unrot, s1).
     then_do (sar_scale p l1 unrot s1) (\<lambda>out.
       case out of Aborted s2 \<Rightarrow> Inr s2 | Scaled l2 s2 \<Rightarrow> sar_finish p l2 s2))"

definition ScaleAndRotate :: "addr \<Rightarrow> int \<Rightarrow> state \<Rightarrow> fault + state" where
  "ScaleAndRotate p degrees0 s =
     then_do (sar_plan p degrees0 s) (\<lambda>(l, s1).
     then_do (sar_reload p l s1) (\<lambda>(l1, s2). sar_tail p l1 s2))"

subsection \<open>The slideshow timer and the image list (lines 41-65, 116-185, 462-532)\<close>

text \<open>\<open>g_timeout_add\<close>: a new one-shot source; its id is positive.\<close>

definition g_timeout_add :: "int \<Rightarrow> state \<Rightarrow> int \<times> state" where
  "g_timeout_add interval s =
     (let sid = int (Suc (last_source_id s))
      in (sid, emit (EvTimeoutAdd interval)
                (s\<lparr>timeouts := timeouts s @ [(sid, interval)],
                   last_source_id := Suc (last_source_id s)\<rparr>)))"

text \<open>
  \<open>ShowImage\<close>, lines 53-65. The tests of lines 58-59 are evaluated from left to right, so
  the cursor is read only under a positive delay and no pending timeout; the product
  \<open>gDelaySeconds * 1000\<close> is an \<open>int\<close>.
\<close>

definition ShowImage :: "state \<Rightarrow> fault + (int \<times> state)" where
  "ShowImage s =
     then_do (ScaleAndRotate (gCurImage s) 0 s) (\<lambda>s1.
       if 0 < gDelaySeconds s1 \<and> gPendingTimeout s1 = 0 then
         case deref s1 (gCurImage s1) of
           None \<Rightarrow> Inl BadPointer
         | Some cur \<Rightarrow>
             if next_img cur \<noteq> 0 \<or> next_img cur \<noteq> gFirstImage s1 then
               if in_int (gDelaySeconds s1 * 1000) then
                 (case g_timeout_add (gDelaySeconds s1 * 1000) s1 of
                    (sid, s2) \<Rightarrow> Inr (0, s2\<lparr>gPendingTimeout := sid\<rparr>))
               else Inl IntOverflow
             else Inr (0, s1)
       else Inr (0, s1))"

definition LoadImageAndRotate :: "addr \<Rightarrow> state \<Rightarrow> fault + (int \<times> state)" where
  "LoadImageAndRotate p s =
     (case deref s p of
        None \<Rightarrow> Inl BadPointer
      | Some img \<Rightarrow>
          let rot = curRot img;
              firsttime = (trueWidth img = 0)
          in then_do (LoadImageFromFile p
                        (set_img p (img\<lparr>trueWidth := 0, trueHeight := 0, curRot := 0\<rparr>) s))
               (\<lambda>(e, s1).
                  if e \<noteq> 0 then Inr (e, s1)
                  else
                    case deref s1 p of
                      None \<Rightarrow> Inl BadPointer
                    | Some img1 \<Rightarrow>
                        then_do (ScaleAndRotate (gCurImage s1)
                                   (if firsttime \<and> exifRot img1 \<noteq> 0 then exifRot img1 else rot) s1)
                          (\<lambda>s2. Inr (0, s2))))"

text \<open>
  The cursor move of \<open>NextImage\<close>, lines 156-161: \<open>None\<close> is the \<open>return -1\<close> at the
  end of the list.
\<close>

definition next_cursor :: "state \<Rightarrow> fault + state option" where
  "next_cursor s =
     (if gCurImage s = 0 then Inr (Some (s\<lparr>gCurImage := gFirstImage s\<rparr>))
      else
        case deref s (gCurImage s) of
          None \<Rightarrow> Inl BadPointer
        | Some cur \<Rightarrow>
            if next_img cur = 0 \<or> next_img cur = gFirstImage s then Inr None
            else Inr (Some (s\<lparr>gCurImage := next_img cur\<rparr>)))"

text \<open>
  \<open>NextImage\<close>, lines 151-165. Its loop runs as long as images fail to load; the first
  argument bounds the number of rounds, and \<open>OutOfFuel\<close> says the bound was reached.
\<close>

fun NextImage :: "nat \<Rightarrow> state \<Rightarrow> fault + (int \<times> state)" where
  "NextImage 0 s = Inl OutOfFuel"
| "NextImage (Suc n) s =
     (case next_cursor s of
        Inl f \<Rightarrow> Inl f
      | Inr None \<Rightarrow> Inr (- 1, s)
      | Inr (Some s1) \<Rightarrow>
          (case LoadImageAndRotate (gCurImage s1) s1 of
             Inl f \<Rightarrow> Inl f
           | Inr (e, s2) \<Rightarrow>
               if e \<noteq> 0 then NextImage n s2
               else (case ShowImage s2 of Inl f \<Rightarrow> Inl f | Inr (r, s3) \<Rightarrow> Inr (0, s3))))"

text \<open>The cursor move of \<open>PrevImage\<close>, lines 172-181.\<close>

definition prev_cursor :: "state \<Rightarrow> fault + state option" where
  "prev_cursor s =
     (if gCurImage s = 0 then
        case deref s (gFirstImage s) of
          None \<Rightarrow> Inl BadPointer
        | Some first \<Rightarrow>
            Inr (Some (s\<lparr>gCurImage := (if prev_img first \<noteq> 0 then prev_img first
                                          else gFirstImage s)\<rparr>))
      else if gCurImage s = gFirstImage s then Inr None
      else
        case deref s (gCurImage s) of
          None \<Rightarrow> Inl BadPointer
        | Some cur \<Rightarrow> Inr (Some (s\<lparr>gCurImage := prev_img cur\<rparr>)))"

fun PrevImage :: "nat \<Rightarrow> state \<Rightarrow> fault + (int \<times> state)" where
  "PrevImage 0 s = Inl OutOfFuel"
| "PrevImage (Suc n) s =
     (case prev_cursor s of
        Inl f \<Rightarrow> Inl f
      | Inr None \<Rightarrow> Inr (- 1, s)
      | Inr (Some s1) \<Rightarrow>
          (case LoadImageAndRotate (gCurImage s1) s1 of
             Inl f \<Rightarrow> Inl f
           | Inr (e, s2) \<Rightarrow>
               if e \<noteq> 0 then PrevImage n s2
               else (case ShowImage s2 of Inl f \<Rightarrow> Inl f | Inr (r, s3) \<Rightarrow> Inr (0, s3))))"

definition ThisImage :: "nat \<Rightarrow> state \<Rightarrow> fault + (int \<times> state)" where
  "ThisImage fuel s =
     then_do (LoadImageAndRotate (gCurImage s) s) (\<lambda>(e, s1).
       if e \<noteq> 0 then NextImage fuel s1
       else then_do (ShowImage s1) (\<lambda>(r, s2). Inr (0, s2)))"

text \<open>\<open>DelayTimer\<close>, lines 41-51; it always returns \<open>FALSE\<close>.\<close>

definition DelayTimer :: "nat \<Rightarrow> state \<Rightarrow> fault + (bool \<times> state)" where
  "DelayTimer fuel s =
     (if gDelaySeconds s = 0 then Inr (False, s)
      else then_do (NextImage fuel (s\<lparr>gPendingTimeout := 0\<rparr>)) (\<lambda>(r, s1). Inr (False, s1)))"

text \<open>
  GLib fires an armed timeout: it calls the callback, and drops the source because the
  callback returned \<open>FALSE\<close>.
\<close>

definition fire_timeout :: "nat \<Rightarrow> int \<times> int \<Rightarrow> state \<Rightarrow> fault + state" where
  "fire_timeout fuel t s =
     then_do (DelayTimer fuel s) (\<lambda>(again, s1).
       Inr (if again then s1 else s1\<lparr>timeouts := removeAll t (timeouts s1)\<rparr>))"

definition FreePhoImage :: "addr \<Rightarrow> state \<Rightarrow> state" where
  "FreePhoImage p s = s\<lparr>heap := (heap s)(p := None)\<rparr>"

text \<open>An assignment through a pointer: \<open>p->field = v\<close>.\<close>

definition store :: "addr \<Rightarrow> (PhoImage \<Rightarrow> PhoImage) \<Rightarrow> state \<Rightarrow> fault + state" where
  "store p f s = (case deref s p of None \<Rightarrow> Inl BadPointer | Some img \<Rightarrow> Inr (set_img p (f img) s))"

text \<open>Reading a field through a pointer: \<open>p->field\<close>.\<close>

definition load :: "addr \<Rightarrow> (PhoImage \<Rightarrow> 'a) \<Rightarrow> state \<Rightarrow> fault + 'a" where
  "load p f s = (case deref s p of None \<Rightarrow> Inl BadPointer | Some img \<Rightarrow> Inr (f img))"

text \<open>
  Lines 495-522 of \<open>ReallyDelete\<close>: the record is taken out of the list. The branches
  after the tests for a null \<open>next\<close> or \<open>prev\<close> only print.
\<close>

definition disconnect :: "addr \<Rightarrow> state \<Rightarrow> fault + state" where
  "disconnect delImg s =
     then_do (load delImg next_img s) (\<lambda>dnext.
     then_do (load delImg prev_img s) (\<lambda>dprev.
       if delImg = gFirstImage s \<and> (dnext = gFirstImage s \<or> dnext = 0) then
         Inr (emit EvEndSession s)
       else if dprev = dnext then
         (let s1 = s\<lparr>gFirstImage := dprev, gCurImage := dprev\<rparr>
          in then_do (store (gCurImage s1) (\<lambda>c. c\<lparr>next_img := gCurImage s1\<rparr>) s1) (\<lambda>s2.
             store (gCurImage s2) (\<lambda>c. c\<lparr>prev_img := gCurImage s2\<rparr>) s2))
       else if dnext = gFirstImage s then
         (let s1 = s\<lparr>gCurImage := dprev\<rparr>
          in then_do (store (gCurImage s1) (\<lambda>c. c\<lparr>next_img := gFirstImage s1\<rparr>) s1) (\<lambda>s2.
             store (gFirstImage s2) (\<lambda>c. c\<lparr>prev_img := gCurImage s2\<rparr>) s2))
       else
         (let s1 = s\<lparr>gCurImage := dnext\<rparr>
          in then_do (store (gCurImage s1) (\<lambda>c. c\<lparr>prev_img := dprev\<rparr>) s1) (\<lambda>s2.
             then_do (load delImg prev_img s2) (\<lambda>dprev2.
             then_do (if dprev2 = 0 then store delImg (\<lambda>c. c\<lparr>prev_img := gFirstImage s2\<rparr>) s2
                      else Inr s2) (\<lambda>s3.
             then_do (load delImg prev_img s3) (\<lambda>dprev3.
             then_do (store dprev3 (\<lambda>c. c\<lparr>next_img := gCurImage s3\<rparr>) s3) (\<lambda>s4.
             then_do (load (gCurImage s4) next_img s4) (\<lambda>cnext.
             then_do (if cnext = 0 then store (gCurImage s4) (\<lambda>c. c\<lparr>next_img := gFirstImage s4\<rparr>) s4
                      else Inr s4) (\<lambda>s5.
             then_do (load (gCurImage s5) next_img s5) (\<lambda>cnext2.
               store cnext2 (\<lambda>c. c\<lparr>prev_img := gCurImage s5\<rparr>) s5)))))))))))"

text \<open>
  Lines 481-529 of \<open>ReallyDelete\<close>, up to the call of \<open>ThisImage\<close>: \<open>None\<close> when \<open>unlink\<close>
  failed and the function returned at line 486.
\<close>

definition delete_record :: "addr \<Rightarrow> state \<Rightarrow> fault + state option" where
  "delete_record delImg s =
     then_do (load delImg filename s) (\<lambda>fn.
       if unlink_fails s fn then Inr None
       else
         then_do (disconnect delImg (emit (EvUnlink fn) (s\<lparr>files := (files s)(fn := None)\<rparr>))) (\<lambda>s1.
         then_do (if delImg = gFirstImage s1
                  then then_do (load delImg next_img s1) (\<lambda>dnext. Inr (s1\<lparr>gFirstImage := dnext\<rparr>))
                  else Inr s1) (\<lambda>s2.
           Inr (Some (FreePhoImage delImg s2)))))"

definition ReallyDelete :: "nat \<Rightarrow> addr \<Rightarrow> state \<Rightarrow> fault + state" where
  "ReallyDelete fuel delImg s =
     then_do (delete_record delImg s) (\<lambda>r.
       case r of
         None \<Rightarrow> Inr s
       | Some s1 \<Rightarrow> then_do (ThisImage fuel s1) (\<lambda>(e, s2). Inr s2))"

subsection \<open>A concrete session\<close>

text \<open>One image of 2 by 1 RGB pixels, loaded and shown at full size.\<close>

definition buf_a :: GdkPixbuf where
  "buf_a = \<lparr>width = 2, height = 1, rowstride = 8, n_channels = 3, has_alpha = False,
            bits_per_sample = 8, pixels = [1, 2, 3, 4, 5, 6, 0, 0]\<rparr>"

definition img_a :: PhoImage where
  "img_a = \<lparr>filename = ''a.jpg'', trueWidth = 2, trueHeight = 1, curWidth = 2, curHeight = 1,
            curRot = 0, exifRot = 0, comment = None, next_img = 16, prev_img = 16\<rparr>"

definition st_a :: state where
  "st_a = \<lparr>heap = (\<lambda>a. if a = 16 then Some img_a else None), gFirstImage = 16, gCurImage = 16,
           gMonitorWidth = 1920, gMonitorHeight = 1080, gImage = Some buf_a,
           gScaleMode = PHO_SCALE_FULLSIZE, gScaleRatio = DFin 1,
           gDisplayMode = PHO_DISPLAY_NORMAL, gDelaySeconds = 0, gPendingTimeout = 0,
           files = (\<lambda>f. if f = ''a.jpg'' then Some buf_a else None),
           has_exif = (\<lambda>f. False), exif_orientation = (\<lambda>f. 0),
           alloc_ok = (\<lambda>w h. True), fresh_bytes = (\<lambda>n. 0),
           scale_simple = (\<lambda>pb w h. None), window_size = (1920, 1080),
           unlink_fails = (\<lambda>f. False), timeouts = [], last_source_id = 0, events = []\<rparr>"

subsection \<open>The target size\<close>

definition buf_b :: GdkPixbuf where
  "buf_b = \<lparr>width = 4, height = 2, rowstride = 12, n_channels = 3, has_alpha = False,
            bits_per_sample = 8, pixels = map of_nat [0..<24]\<rparr>"

definition img_b :: PhoImage where
  "img_b = \<lparr>filename = ''b.jpg'', trueWidth = 2, trueHeight = 4, curWidth = 1, curHeight = 2,
            curRot = 90, exifRot = 0, comment = None, next_img = 16, prev_img = 16\<rparr>"

definition st_b :: state where
  "st_b = st_a\<lparr>heap := (\<lambda>a. if a = 16 then Some img_b else None), gImage := None,
               files := (\<lambda>f. if f = ''b.jpg'' then Some buf_b else None)\<rparr>"

subsection \<open>ScaleAndRotate: the reload\<close>

definition st_c :: state where
  "st_c = st_a\<lparr>gScaleMode := PHO_SCALE_IMG_RATIO, gScaleRatio := DFin 10\<rparr>"

definition img_d :: PhoImage where
  "img_d = \<lparr>filename = ''a.jpg'', trueWidth = 2, trueHeight = 1, curWidth = 4, curHeight = 2,
            curRot = 0, exifRot = 0, comment = None, next_img = 16, prev_img = 16\<rparr>"

definition st_d :: state where
  "st_d = st_a\<lparr>heap := (\<lambda>a. if a = 16 then Some img_d else None), gImage := Some buf_b\<rparr>"

definition st_e :: state where
  "st_e = st_c\<lparr>scale_simple := (\<lambda>pb w h. Some (pb\<lparr>width := w, height := h,
             rowstride := w * n_channels pb,
             pixels := replicate (nat (w * n_channels pb * h)) 0\<rparr>))\<rparr>"

definition l_e :: sar_locals where
  "l_e = \<lparr>l_degrees = 90, l_aspect_changing = True, l_true_width = 1, l_true_height = 2,
           l_cur_width = 1, l_cur_height = 2, l_new_width = 10, l_new_height = 20\<rparr>"

subsection \<open>ScaleAndRotate: rotation and scaling\<close>

subsection \<open>ScaleAndRotate: a failed scaling\<close>

text \<open>An image of 1 by 2 RGB pixels, loaded and shown at full size.\<close>

definition buf_p :: GdkPixbuf where
  "buf_p = \<lparr>width = 1, height = 2, rowstride = 4, n_channels = 3, has_alpha = False,
            bits_per_sample = 8, pixels = [1, 2, 3, 0, 4, 5, 6, 0]\<rparr>"

definition img_p :: PhoImage where
  "img_p = \<lparr>filename = ''p.jpg'', trueWidth = 1, trueHeight = 2, curWidth = 1, curHeight = 2,
            curRot = 0, exifRot = 0, comment = None, next_img = 16, prev_img = 16\<rparr>"

definition st_p :: state where
  "st_p = st_a\<lparr>heap := (\<lambda>a. if a = 16 then Some img_p else None), gImage := Some buf_p,
               files := (\<lambda>f. if f = ''p.jpg'' then Some buf_p else None)\<rparr>"

subsection \<open>A session\<close>

text \<open>
  One step of a session of the viewer: a call of one of the functions of the image list (from
  a key press or from the window system), an armed timeout that fires, or a change of the
  slideshow delay or of the scale and display mode.
\<close>

inductive session_step :: "nat \<Rightarrow> state \<Rightarrow> state \<Rightarrow> bool" for fuel :: nat where
  step_show: "ShowImage s = Inr (r, s') \<Longrightarrow> session_step fuel s s'"
| step_next: "NextImage fuel s = Inr (r, s') \<Longrightarrow> session_step fuel s s'"
| step_prev: "PrevImage fuel s = Inr (r, s') \<Longrightarrow> session_step fuel s s'"
| step_this: "ThisImage fuel s = Inr (r, s') \<Longrightarrow> session_step fuel s s'"
| step_delete: "ReallyDelete fuel p s = Inr s' \<Longrightarrow> session_step fuel s s'"
| step_rotate: "ScaleAndRotate p d s = Inr s' \<Longrightarrow> session_step fuel s s'"
| step_fire: "t \<in> set (timeouts s) \<Longrightarrow> fire_timeout fuel t s = Inr s' \<Longrightarrow> session_step fuel s s'"
| step_delay: "session_step fuel s (s\<lparr>gDelaySeconds := d\<rparr>)"
| step_mode: "session_step fuel s (s\<lparr>gScaleMode := m, gScaleRatio := q, gDisplayMode := dm\<rparr>)"

section \<open>Properties\<close>

subsection \<open>The pixel loops of RotateImage\<close>

lemma idx_div: "0 \<le> a \<Longrightarrow> a < rs \<Longrightarrow> (y * rs + a) div rs = (y::int)"
  by simp

lemma offs_bound:
  fixes x w c i :: int
  assumes "0 \<le> x" "x < w" "0 \<le> i" "i < c"
  shows "0 \<le> x * c + i \<and> x * c + i < w * c"
proof -
  have "x * c \<le> (w - 1) * c" using assms by (intro mult_right_mono) auto
  then have "x * c + i < w * c" using assms by (simp add: algebra_simps)
  moreover have "0 \<le> x * c" using assms by simp
  ultimately show ?thesis using assms by simp
qed

lemma idx_inj:
  fixes x y i x' y' i' w c rs :: int
  assumes "0 \<le> x" "x < w" "0 \<le> i" "i < c" "0 \<le> x'" "x' < w" "0 \<le> i'" "i' < c" "w * c \<le> rs"
    and eq: "y * rs + x * c + i = y' * rs + x' * c + i'"
  shows "x = x' \<and> y = y' \<and> i = i'"
proof -
  have a: "0 \<le> x * c + i" "x * c + i < rs"
    using offs_bound [of x w i c] assms by auto
  have a': "0 \<le> x' * c + i'" "x' * c + i' < rs"
    using offs_bound [of x' w i' c] assms by auto
  have "(y * rs + (x * c + i)) div rs = (y' * rs + (x' * c + i')) div rs"
    using eq by (simp add: add.assoc)
  then have y: "y = y'"
    using a a' by (simp only: idx_div)
  then have e2: "x * c + i = x' * c + i'" using eq by simp
  then have "(x * c + i) div c = (x' * c + i') div c" by simp
  then have x: "x = x'" using assms by (simp only: idx_div)
  with e2 y show ?thesis by simp
qed

lemma idx_bound:
  fixes x y i w h c rs :: int
  assumes "0 \<le> x" "x < w" "0 \<le> i" "i < c" "0 \<le> y" "y < h" "w * c \<le> rs"
  shows "0 \<le> y * rs + x * c + i \<and> y * rs + x * c + i < rs * (h - 1) + w * c"
proof -
  have a: "0 \<le> x * c + i" "x * c + i < w * c"
    using offs_bound [of x w i c] assms by auto
  from a have "0 \<le> rs" using assms by linarith
  then have "y * rs \<le> (h - 1) * rs" "0 \<le> y * rs" using assms by (auto intro: mult_right_mono)
  then show ?thesis using a by (simp add: algebra_simps)
qed


lemma copy_byte_Inl [simp]: "copy_byte old src dst (Inl e) = Inl e"
  by (simp add: copy_byte_def)

lemma fold_copy_Inl [simp]: "fold (\<lambda>p. copy_byte old (fst p) (snd p)) ps (Inl e) = Inl e"
  by (induction ps) simp_all

lemma fold_copy_byte:
  assumes "\<forall>p \<in> set ps. 0 \<le> fst p \<and> fst p < int (length old) \<and> 0 \<le> snd p \<and> snd p < int (length new)"
    and "\<forall>p \<in> set ps. \<forall>q \<in> set ps. snd p = snd q \<longrightarrow> fst p = fst q"
  shows "\<exists>np. fold (\<lambda>p. copy_byte old (fst p) (snd p)) ps (Inr new) = Inr np \<and> length np = length new \<and>
           (\<forall>p \<in> set ps. np ! nat (snd p) = old ! nat (fst p))"
  using assms
proof (induction ps rule: rev_induct)
  case Nil
  show ?case by simp
next
  case (snoc q ps)
  have sub: "set ps \<subseteq> set (ps @ [q])" "q \<in> set (ps @ [q])" by auto
  have pre1: "\<forall>p \<in> set ps. 0 \<le> fst p \<and> fst p < int (length old) \<and> 0 \<le> snd p \<and> snd p < int (length new)"
    using snoc.prems(1) sub by blast
  have pre2: "\<forall>p \<in> set ps. \<forall>q \<in> set ps. snd p = snd q \<longrightarrow> fst p = fst q"
    using snoc.prems(2) sub by blast
  from snoc.IH [OF pre1 pre2]
  obtain np where np: "fold (\<lambda>p. copy_byte old (fst p) (snd p)) ps (Inr new) = Inr np"
    "length np = length new" "\<forall>p \<in> set ps. np ! nat (snd p) = old ! nat (fst p)"
    by blast
  have q: "0 \<le> fst q" "fst q < int (length old)" "0 \<le> snd q" "snd q < int (length np)"
    using snoc.prems(1) np(2) sub(2) by force+
  let ?np = "np[nat (snd q) := old ! nat (fst q)]"
  have r: "fold (\<lambda>p. copy_byte old (fst p) (snd p)) (ps @ [q]) (Inr new) = Inr ?np"
    using np(1) q by (simp add: copy_byte_def)
  have "?np ! nat (snd p) = old ! nat (fst p)" if "p \<in> set (ps @ [q])" for p
  proof (cases "snd p = snd q")
    case True
    then have "fst p = fst q" using snoc.prems(2) that sub(2) by blast
    with True q show ?thesis by simp
  next
    case False
    then have ps: "p \<in> set ps" using that by auto
    then have "0 \<le> snd p" using pre1 by simp
    then have "nat (snd p) \<noteq> nat (snd q)" using q(3) False by simp
    then show ?thesis using np(3) ps by simp
  qed
  then have "\<forall>p \<in> set (ps @ [q]). ?np ! nat (snd p) = old ! nat (fst p)" by blast
  with r np(2) show ?case by simp
qed


text \<open>The copies of the three loops, as one list.\<close>

definition dst_index :: "int \<Rightarrow> int \<Rightarrow> int \<Rightarrow> int \<Rightarrow> int \<Rightarrow> int \<Rightarrow> int \<Rightarrow> int \<Rightarrow> int" where
  "dst_index d cw ch nch nrs x y i =
     (case rotate_target d cw ch x y of None \<Rightarrow> 0 | Some (nx, ny) \<Rightarrow> ny * nrs + nx * nch + i)"

definition rot_pairs :: "int \<Rightarrow> int \<Rightarrow> int \<Rightarrow> int \<Rightarrow> int \<Rightarrow> int \<Rightarrow> (int \<times> int) list" where
  "rot_pairs d cw ch nch ors nrs =
     concat (map (\<lambda>x. concat (map (\<lambda>y. map (\<lambda>i. (y * ors + x * nch + i, dst_index d cw ch nch nrs x y i))
        [0..nch - 1]) [0..ch - 1])) [0..cw - 1])"

lemma set_rot_pairs:
  "set (rot_pairs d cw ch nch ors nrs) =
     {(y * ors + x * nch + i, dst_index d cw ch nch nrs x y i) | x y i.
        0 \<le> x \<and> x < cw \<and> 0 \<le> y \<and> y < ch \<and> 0 \<le> i \<and> i < nch}"
  apply (auto simp: rot_pairs_def)
   apply blast
  subgoal for x y i
    by (rule bexI [of _ x], rule bexI [of _ y], rule image_eqI [of _ _ i]) auto
  done

text \<open>Offsets that stay below \<open>2^31\<close> are computed without overflow.\<close>

lemma pixel_offset_Some:
  fixes x y i w h c rs :: int
  assumes "0 \<le> x" "x < w" "0 \<le> i" "i < c" "0 \<le> y" "y < h" "w * c \<le> rs"
    and "rs * (h - 1) + w * c \<le> 2147483648"
  shows "pixel_offset y rs x c i = Some (y * rs + x * c + i)"
proof -
  have b: "0 \<le> y * rs + x * c + i" "y * rs + x * c + i < rs * (h - 1) + w * c"
    using idx_bound [OF assms(1-7)] by auto
  have xc: "0 \<le> x * c" using assms(1,3,4) by simp
  have "0 < w * c" using assms(1-4) by (simp add: zero_less_mult_iff)
  then have "0 \<le> rs" using assms(7) by linarith
  then have yr: "0 \<le> y * rs" using assms(5) by simp
  show ?thesis
    using b xc yr assms(3,8) by (simp add: pixel_offset_def in_int_def)
qed

lemma copy_sample_Some: "copy_sample old (Some a) (Some b) = copy_byte old a b"
  by (rule ext) (simp add: copy_sample_def copy_byte_def split: sum.splits)

lemma rotate_pixel_flat:
  assumes "d = 90 \<or> d = 180 \<or> d = 270"
    and ok: "\<And>i nx ny. 0 \<le> i \<Longrightarrow> i < nch \<Longrightarrow> rotate_target d cw ch x y = Some (nx, ny) \<Longrightarrow>
           pixel_offset y ors x nch i = Some (y * ors + x * nch + i) \<and>
           pixel_offset ny nrs nx nch i = Some (ny * nrs + nx * nch + i)"
  shows "rotate_pixel d cw ch nch ors nrs old x y acc =
     fold (\<lambda>p. copy_byte old (fst p) (snd p))
       (map (\<lambda>i. (y * ors + x * nch + i, dst_index d cw ch nch nrs x y i)) [0..nch - 1]) acc"
proof (cases acc)
  case (Inl e)
  then show ?thesis by (simp add: rotate_pixel_def)
next
  case (Inr np)
  obtain nx ny where t: "rotate_target d cw ch x y = Some (nx, ny)"
    using assms(1) by (auto simp: rotate_target_def)
  have "fold (\<lambda>i. copy_sample old (pixel_offset y ors x nch i) (pixel_offset ny nrs nx nch i))
          [0..nch - 1] (Inr np) =
        fold (\<lambda>i. copy_byte old (y * ors + x * nch + i) (ny * nrs + nx * nch + i))
          [0..nch - 1] (Inr np)"
  proof (rule fold_cong [OF refl refl])
    fix i assume "i \<in> set [0..nch - 1]"
    then have "0 \<le> i" "i < nch" by auto
    from ok [OF this t]
    show "copy_sample old (pixel_offset y ors x nch i) (pixel_offset ny nrs nx nch i) =
          copy_byte old (y * ors + x * nch + i) (ny * nrs + nx * nch + i)"
      by (simp add: copy_sample_Some)
  qed
  then show ?thesis
    by (simp add: Inr rotate_pixel_def t dst_index_def fold_map comp_def)
qed

lemma rotate_pixels_flat:
  assumes d: "d = 90 \<or> d = 180 \<or> d = 270"
    and ok: "\<And>x y i nx ny. 0 \<le> x \<Longrightarrow> x < cw \<Longrightarrow> 0 \<le> y \<Longrightarrow> y < ch \<Longrightarrow> 0 \<le> i \<Longrightarrow> i < nch \<Longrightarrow>
           rotate_target d cw ch x y = Some (nx, ny) \<Longrightarrow>
           pixel_offset y ors x nch i = Some (y * ors + x * nch + i) \<and>
           pixel_offset ny nrs nx nch i = Some (ny * nrs + nx * nch + i)"
  shows "rotate_pixels d cw ch nch ors nrs old new =
     fold (\<lambda>p. copy_byte old (fst p) (snd p)) (rot_pairs d cw ch nch ors nrs) (Inr new)"
proof -
  let ?row = "\<lambda>x y. fold (\<lambda>p. copy_byte old (fst p) (snd p))
       (map (\<lambda>i. (y * ors + x * nch + i, dst_index d cw ch nch nrs x y i)) [0..nch - 1])"
  have step: "rotate_pixel d cw ch nch ors nrs old x y = ?row x y"
    if "x \<in> set [0..cw - 1]" "y \<in> set [0..ch - 1]" for x y
  proof (rule ext, rule rotate_pixel_flat [OF d])
    fix i nx ny assume "0 \<le> i" "i < nch" "rotate_target d cw ch x y = Some (nx, ny)"
    moreover have "0 \<le> x" "x < cw" "0 \<le> y" "y < ch" using that by auto
    ultimately show "pixel_offset y ors x nch i = Some (y * ors + x * nch + i) \<and>
           pixel_offset ny nrs nx nch i = Some (ny * nrs + nx * nch + i)"
      using ok by blast
  qed
  have col: "fold (rotate_pixel d cw ch nch ors nrs old x) [0..ch - 1] = fold (?row x) [0..ch - 1]"
    if "x \<in> set [0..cw - 1]" for x
  proof (rule ext, rule fold_cong [OF refl refl])
    fix y assume "y \<in> set [0..ch - 1]"
    then show "rotate_pixel d cw ch nch ors nrs old x y = ?row x y" using step that by blast
  qed
  have all: "rotate_pixels d cw ch nch ors nrs old new =
      fold (\<lambda>x. fold (?row x) [0..ch - 1]) [0..cw - 1] (Inr new)"
    unfolding rotate_pixels_def
  proof (rule fold_cong [OF refl refl])
    fix x assume "x \<in> set [0..cw - 1]"
    then show "fold (rotate_pixel d cw ch nch ors nrs old x) [0..ch - 1] = fold (?row x) [0..ch - 1]"
      by (rule col)
  qed
  have inner: "fold (?row x) ys =
      fold (\<lambda>p. copy_byte old (fst p) (snd p))
        (concat (map (\<lambda>y. map (\<lambda>i. (y * ors + x * nch + i, dst_index d cw ch nch nrs x y i))
           [0..nch - 1]) ys))" for x ys
    by (induction ys) (simp_all add: fun_eq_iff)
  have outer: "fold (\<lambda>x. fold (?row x) ys) xs =
      fold (\<lambda>p. copy_byte old (fst p) (snd p))
        (concat (map (\<lambda>x. concat (map (\<lambda>y. map (\<lambda>i. (y * ors + x * nch + i, dst_index d cw ch nch nrs x y i))
           [0..nch - 1]) ys)) xs))" for xs ys
    by (induction xs) (simp_all add: inner fun_eq_iff)
  show ?thesis
    unfolding all by (simp add: rot_pairs_def outer)
qed

lemma rotate_target_range:
  assumes "rotate_target d cw ch x y = Some (nx, ny)" "0 \<le> x" "x < cw" "0 \<le> y" "y < ch"
  shows "0 \<le> nx \<and> nx < (if d = 180 then cw else ch) \<and> 0 \<le> ny \<and> ny < (if d = 180 then ch else cw)"
  using assms by (auto simp: rotate_target_def split: if_splits)

lemma rotate_target_inj:
  assumes "rotate_target d cw ch x y = Some t" "rotate_target d cw ch x' y' = Some t"
  shows "x = x' \<and> y = y'"
  using assms by (auto simp: rotate_target_def split: if_splits)

lemma rotate_pixels_correct:
  assumes d: "d = 90 \<or> d = 180 \<or> d = 270"
    and old: "cw * nch \<le> ors" "ors * (ch - 1) + cw * nch \<le> int (length old)"
    and new: "(if d = 180 then cw else ch) * nch \<le> nrs"
      "nrs * ((if d = 180 then ch else cw) - 1) + (if d = 180 then cw else ch) * nch \<le> int (length new)"
    and small: "ors * (ch - 1) + cw * nch \<le> 2147483648"
      "nrs * ((if d = 180 then ch else cw) - 1) + (if d = 180 then cw else ch) * nch \<le> 2147483648"
  shows "\<exists>np. rotate_pixels d cw ch nch ors nrs old new = Inr np \<and> length np = length new \<and>
     (\<forall>x y i nx ny. 0 \<le> x \<and> x < cw \<and> 0 \<le> y \<and> y < ch \<and> 0 \<le> i \<and> i < nch \<and>
         rotate_target d cw ch x y = Some (nx, ny) \<longrightarrow>
         np ! nat (ny * nrs + nx * nch + i) = old ! nat (y * ors + x * nch + i))"
proof -
  let ?nw = "if d = 180 then cw else ch" and ?nh = "if d = 180 then ch else cw"
  let ?ps = "rot_pairs d cw ch nch ors nrs"
  have tgt: "\<exists>nx ny. rotate_target d cw ch x y = Some (nx, ny)" for x y
    using d by (auto simp: rotate_target_def)
  have bounds: "\<forall>p \<in> set ?ps. 0 \<le> fst p \<and> fst p < int (length old) \<and> 0 \<le> snd p \<and> snd p < int (length new)"
  proof
    fix p assume "p \<in> set ?ps"
    then obtain x y i where p: "p = (y * ors + x * nch + i, dst_index d cw ch nch nrs x y i)"
      and r: "0 \<le> x" "x < cw" "0 \<le> y" "y < ch" "0 \<le> i" "i < nch"
      by (auto simp: set_rot_pairs)
    obtain nx ny where t: "rotate_target d cw ch x y = Some (nx, ny)" using tgt by blast
    have n: "0 \<le> nx" "nx < ?nw" "0 \<le> ny" "ny < ?nh"
      using rotate_target_range [OF t r(1-4)] by auto
    have "0 \<le> y * ors + x * nch + i \<and> y * ors + x * nch + i < ors * (ch - 1) + cw * nch"
      using r old(1) by (intro idx_bound) auto
    moreover have "0 \<le> ny * nrs + nx * nch + i \<and> ny * nrs + nx * nch + i < nrs * (?nh - 1) + ?nw * nch"
      using n r new(1) by (intro idx_bound) auto
    ultimately show "0 \<le> fst p \<and> fst p < int (length old) \<and> 0 \<le> snd p \<and> snd p < int (length new)"
      using old(2) new(2) by (simp add: p dst_index_def t)
  qed
  have func: "\<forall>p \<in> set ?ps. \<forall>q \<in> set ?ps. snd p = snd q \<longrightarrow> fst p = fst q"
  proof (intro ballI impI)
    fix p q assume pin: "p \<in> set ?ps" and qin: "q \<in> set ?ps" and e: "snd p = snd q"
    from pin obtain x y i where p: "p = (y * ors + x * nch + i, dst_index d cw ch nch nrs x y i)"
      and r: "0 \<le> x" "x < cw" "0 \<le> y" "y < ch" "0 \<le> i" "i < nch"
      by (auto simp: set_rot_pairs)
    from qin obtain x' y' i' where q: "q = (y' * ors + x' * nch + i', dst_index d cw ch nch nrs x' y' i')"
      and r': "0 \<le> x'" "x' < cw" "0 \<le> y'" "y' < ch" "0 \<le> i'" "i' < nch"
      by (auto simp: set_rot_pairs)
    obtain nx ny where t: "rotate_target d cw ch x y = Some (nx, ny)" using tgt by blast
    obtain nx' ny' where t': "rotate_target d cw ch x' y' = Some (nx', ny')" using tgt by blast
    have n: "0 \<le> nx" "nx < ?nw" using rotate_target_range [OF t r(1-4)] by auto
    have n': "0 \<le> nx'" "nx' < ?nw" using rotate_target_range [OF t' r'(1-4)] by auto
    have "ny * nrs + nx * nch + i = ny' * nrs + nx' * nch + i'"
      using e by (simp add: p q dst_index_def t t')
    then have "nx = nx' \<and> ny = ny' \<and> i = i'"
      using n n' r(5,6) r'(5,6) new(1) by (intro idx_inj [where w = ?nw and c = nch and rs = nrs]) auto
    then have "x = x' \<and> y = y' \<and> i = i'"
      using rotate_target_inj [of d cw ch x y "(nx, ny)" x' y'] t t' by simp
    then show "fst p = fst q" by (simp add: p q)
  qed
  from fold_copy_byte [OF bounds func]
  obtain np where np: "fold (\<lambda>p. copy_byte old (fst p) (snd p)) ?ps (Inr new) = Inr np"
    "length np = length new" "\<forall>p \<in> set ?ps. np ! nat (snd p) = old ! nat (fst p)"
    by blast
  have px: "np ! nat (ny * nrs + nx * nch + i) = old ! nat (y * ors + x * nch + i)"
    if "0 \<le> x" "x < cw" "0 \<le> y" "y < ch" "0 \<le> i" "i < nch" "rotate_target d cw ch x y = Some (nx, ny)"
    for x y i nx ny
  proof -
    have "(y * ors + x * nch + i, dst_index d cw ch nch nrs x y i) \<in> set ?ps"
      using that by (auto simp: set_rot_pairs)
    with np(3) have "np ! nat (dst_index d cw ch nch nrs x y i) = old ! nat (y * ors + x * nch + i)"
      by force
    then show ?thesis by (simp add: dst_index_def that(7))
  qed
  have ok: "pixel_offset y ors x nch i = Some (y * ors + x * nch + i) \<and>
            pixel_offset ny nrs nx nch i = Some (ny * nrs + nx * nch + i)"
    if r: "0 \<le> x" "x < cw" "0 \<le> y" "y < ch" "0 \<le> i" "i < nch"
      and t: "rotate_target d cw ch x y = Some (nx, ny)" for x y i nx ny
  proof -
    have n: "0 \<le> nx" "nx < ?nw" "0 \<le> ny" "ny < ?nh"
      using rotate_target_range [OF t r(1-4)] by auto
    have "pixel_offset y ors x nch i = Some (y * ors + x * nch + i)"
      using r(1,2,5,6,3,4) old(1) small(1) by (rule pixel_offset_Some)
    moreover have "pixel_offset ny nrs nx nch i = Some (ny * nrs + nx * nch + i)"
      using n(1,2) r(5,6) n(3,4) new(1) small(2) by (rule pixel_offset_Some)
    ultimately show ?thesis by blast
  qed
  have "rotate_pixels d cw ch nch ors nrs old new =
        fold (\<lambda>p. copy_byte old (fst p) (snd p)) ?ps (Inr new)"
    using d ok by (rule rotate_pixels_flat)
  then show ?thesis using np(1,2) px by auto
qed

subsection \<open>RotateImage\<close>

lemma c_mod_quarter: "d = 90 \<or> d = 180 \<or> d = 270 \<Longrightarrow> c_mod (d + 360) 360 = d"
  by (auto simp: c_mod_def c_div_def)

lemma aligned_ge: "(w::int) \<le> ((w + 3) div 4) * 4"
  by presburger

lemma gdk_pixbuf_new_wf:
  assumes "gdk_pixbuf_new s alpha 8 w h = Some nb"
  shows "wf_pixbuf nb \<and> width nb = w \<and> height nb = h \<and> has_alpha nb = alpha \<and>
         n_channels nb = (if alpha then 4 else 3) \<and>
         rowstride nb = ((w * n_channels nb + 3) div 4) * 4 \<and>
         int (length (pixels nb)) = rowstride nb * h"
proof -
  let ?c = "if alpha then 4 else 3 :: int"
  let ?rs = "((w * ?c + 3) div 4) * 4"
  from assms have pos: "0 < w" "0 < h"
    and nb: "nb = \<lparr>width = w, height = h, rowstride = ?rs, n_channels = ?c,
                  has_alpha = alpha, bits_per_sample = 8,
                  pixels = map (fresh_bytes s) [0..<nat (?rs * h)]\<rparr>"
    by (auto simp: gdk_pixbuf_new_def Let_def split: if_splits)
  have rs: "w * ?c \<le> ?rs" by (rule aligned_ge)
  then have rs0: "0 \<le> ?rs" using pos by (smt (verit) mult_nonneg_nonneg)
  then have len: "int (length (pixels nb)) = ?rs * h" using pos by (simp add: nb)
  have "?rs * (h - 1) + w * ?c \<le> ?rs * h" using rs by (simp add: algebra_simps)
  then show ?thesis using pos rs len by (simp add: wf_pixbuf_def nb)
qed

text \<open>
  A buffer fits when every byte offset into it, and into a fresh buffer of its size or of
  its size turned, is an \<open>int\<close>.
\<close>

definition fits :: "GdkPixbuf \<Rightarrow> bool" where
  "fits pb \<longleftrightarrow>
     rowstride pb * height pb \<le> 2147483648 \<and>
     ((width pb * n_channels pb + 3) div 4) * 4 * height pb \<le> 2147483648 \<and>
     ((height pb * n_channels pb + 3) div 4) * 4 * width pb \<le> 2147483648"

lemma c_mod_nonneg: "0 \<le> a \<Longrightarrow> 0 < b \<Longrightarrow> c_mod a b = a mod b"
  by (cases "a = 0") (simp_all add: c_mod_def c_div_def minus_div_mult_eq_mod)

lemma c_mod_turn:
  assumes "0 \<le> r" "r < 360" "d = 90 \<or> d = 180 \<or> d = 270"
  shows "0 \<le> c_mod (r + d + 360) 360 \<and> c_mod (r + d + 360) 360 < 360"
proof -
  have "c_mod (r + d + 360) 360 = (r + d + 360) mod 360"
    using assms by (intro c_mod_nonneg) auto
  then show ?thesis by simp
qed

text \<open>
  \<open>RotateImage\<close> is right when the record holds the size of the live buffer, the buffer
  fits and the saved rotation is in its range.
\<close>

lemma RotateImage_correct:
  assumes d: "d = 90 \<or> d = 180 \<or> d = 270"
    and img: "deref s p = Some img" and buf: "gImage s = Some old" and wf: "wf_pixbuf old"
    and dims: "curWidth img = width old" "curHeight img = height old"
    and alloc: "alloc_ok s (if d = 180 then width old else height old)
                  (if d = 180 then height old else width old)"
    and fits: "fits old" and rot: "0 \<le> curRot img" "curRot img < 360"
  shows "\<exists>nb. RotateImage p d s =
           Inr (0, set_img p
                  (img\<lparr>curWidth := width nb, curHeight := height nb,
                       trueWidth := (if d = 180 then trueWidth img else trueHeight img),
                       trueHeight := (if d = 180 then trueHeight img else trueWidth img),
                       curRot := c_mod (curRot img + d + 360) 360\<rparr>)
                  (emit (EvRotate d) s\<lparr>gImage := Some nb\<rparr>)) \<and>
         wf_pixbuf nb \<and>
         width nb = (if d = 180 then width old else height old) \<and>
         height nb = (if d = 180 then height old else width old) \<and>
         has_alpha nb = has_alpha old \<and> n_channels nb = n_channels old \<and>
         rowstride nb = ((width nb * n_channels nb + 3) div 4) * 4 \<and>
         (\<forall>x y i nx ny. 0 \<le> x \<and> x < width old \<and> 0 \<le> y \<and> y < height old \<and> 0 \<le> i \<and> i < n_channels old \<and>
            rotate_target d (width old) (height old) x y = Some (nx, ny) \<longrightarrow>
            pixels nb ! nat (ny * rowstride nb + nx * n_channels old + i) =
            pixels old ! nat (y * rowstride old + x * n_channels old + i))"
proof -
  let ?nw = "if d = 180 then width old else height old"
  let ?nh = "if d = 180 then height old else width old"
  let ?s = "emit (EvRotate d) s"
  have bits: "bits_per_sample old = 8" and ch: "n_channels old = (if has_alpha old then 4 else 3)"
    and pos: "0 < width old" "0 < height old"
    and o1: "width old * n_channels old \<le> rowstride old"
    and o2: "rowstride old * (height old - 1) + width old * n_channels old \<le> int (length (pixels old))"
    using wf unfolding wf_pixbuf_def by blast+
  have "gdk_pixbuf_new ?s (has_alpha old) 8 ?nw ?nh \<noteq> None"
    using alloc pos by (auto simp: gdk_pixbuf_new_def emit_def Let_def)
  then obtain nb0 where nb0: "gdk_pixbuf_new ?s (has_alpha old) 8 ?nw ?nh = Some nb0" by blast
  note g = gdk_pixbuf_new_wf [OF nb0]
  have nch: "n_channels nb0 = n_channels old" using g ch by simp
  have g1: "width nb0 * n_channels nb0 \<le> rowstride nb0"
    "rowstride nb0 * (height nb0 - 1) + width nb0 * n_channels nb0 \<le> int (length (pixels nb0))"
    using g unfolding wf_pixbuf_def by blast+
  have gw: "width nb0 = ?nw" "height nb0 = ?nh" using g by blast+
  have n1: "?nw * n_channels old \<le> rowstride nb0"
    using g1(1) by (simp only: gw nch)
  have n2: "rowstride nb0 * (?nh - 1) + ?nw * n_channels old \<le> int (length (pixels nb0))"
    using g1(2) by (simp only: gw nch)
  have rs0: "0 \<le> rowstride old" "0 \<le> rowstride nb0"
    using o1 n1 pos ch by (auto intro: order_trans [rotated] simp: zero_le_mult_iff split: if_splits)
  have "rowstride old * (height old - 1) + width old * n_channels old \<le> rowstride old * height old"
    using o1 by (simp add: algebra_simps)
  then have sm1: "rowstride old * (height old - 1) + width old * n_channels old \<le> 2147483648"
    using fits by (simp add: fits_def)
  have grs1: "rowstride nb0 = ((?nw * n_channels old + 3) div 4) * 4"
    using g nch by (simp only:)
  have "rowstride nb0 * (?nh - 1) + ?nw * n_channels old \<le> rowstride nb0 * ?nh"
    using n1 by (simp add: algebra_simps)
  moreover have "rowstride nb0 * ?nh \<le> 2147483648"
    unfolding grs1 using fits by (simp add: fits_def)
  ultimately have sm2: "rowstride nb0 * (?nh - 1) + ?nw * n_channels old \<le> 2147483648"
    by linarith
  from rotate_pixels_correct [OF d o1 o2 n1 n2 sm1 sm2]
  obtain np where np: "rotate_pixels d (width old) (height old) (n_channels old) (rowstride old)
        (rowstride nb0) (pixels old) (pixels nb0) = Inr np"
    "length np = length (pixels nb0)"
    "\<forall>x y i nx ny. 0 \<le> x \<and> x < width old \<and> 0 \<le> y \<and> y < height old \<and> 0 \<le> i \<and> i < n_channels old \<and>
         rotate_target d (width old) (height old) x y = Some (nx, ny) \<longrightarrow>
         np ! nat (ny * rowstride nb0 + nx * n_channels old + i) =
         old_pixels ! nat (y * rowstride old + x * n_channels old + i)"
    if "old_pixels = pixels old" for old_pixels
    by blast
  let ?nb = "nb0\<lparr>pixels := np\<rparr>"
  have wf0: "wf_pixbuf nb0" using g by blast
  have ga: "has_alpha nb0 = has_alpha old"
    and grs0: "rowstride nb0 = ((?nw * n_channels nb0 + 3) div 4) * 4"
    using g by blast+
  have grs: "rowstride nb0 = ((width nb0 * n_channels nb0 + 3) div 4) * 4"
    using grs0 by (simp only: gw)
  have "wf_pixbuf ?nb = wf_pixbuf nb0" using np(2) by (simp add: wf_pixbuf_def)
  then have wfn: "wf_pixbuf ?nb" using wf0 by blast
  have quarter: "(d = 90 \<or> d = 270) = (d \<noteq> 180)" using d by auto
  have run: "RotateImage p d s =
           Inr (0, set_img p
                  (img\<lparr>curWidth := ?nw, curHeight := ?nh,
                       trueWidth := (if d = 180 then trueWidth img else trueHeight img),
                       trueHeight := (if d = 180 then trueHeight img else trueWidth img),
                       curRot := c_mod (curRot img + d + 360) 360\<rparr>)
                  (?s\<lparr>gImage := Some ?nb\<rparr>))"
    using d img buf nb0 np(1) [OF refl] dims bits rot
    by (auto simp: RotateImage_def Let_def c_mod_quarter emit_def deref_def in_int_def
        split: if_splits)
  show ?thesis
    apply (rule exI [of _ ?nb])
    using run wfn gw ga nch grs np(3) [OF refl] by simp
qed

text \<open>
  The pixel mapping. Let the record's current size be the size of the live buffer, a
  buffer as GdkPixbuf makes them that fits, and let the new buffer be allocated. Then
  \<open>RotateImage\<close> by 90 degrees gives a buffer of the old height as width and the old width
  as height, in which every sample \<open>i\<close> of every source pixel \<open>(x, y)\<close> stands at
  \<open>(oldHeight - y - 1, x)\<close>; by 270 degrees, at \<open>(y, oldWidth - x - 1)\<close>; by 180 degrees the
  dimensions stay and the pixel stands at \<open>(oldWidth - x - 1, oldHeight - y - 1)\<close>. The source
  index uses the row stride of the old buffer and the destination index that of the new
  one, which \<open>gdk_pixbuf_new\<close> computes from the new width alone.
\<close>

lemma RotateImage_pixel_mapping:
  assumes "deref s p = Some img" and "gImage s = Some old" and "wf_pixbuf old"
    and "curWidth img = width old" and "curHeight img = height old"
    and "alloc_ok s (height old) (width old)" and "alloc_ok s (width old) (height old)"
    and "fits old" and "0 \<le> curRot img" and "curRot img < 360"
  shows
    "(\<exists>s' nb. RotateImage p 90 s = Inr (0, s') \<and> gImage s' = Some nb \<and>
        width nb = height old \<and> height nb = width old \<and>
        rowstride nb = ((width nb * n_channels old + 3) div 4) * 4 \<and>
        (\<forall>x y i. 0 \<le> x \<and> x < width old \<and> 0 \<le> y \<and> y < height old \<and> 0 \<le> i \<and> i < n_channels old \<longrightarrow>
           pixels nb ! nat (x * rowstride nb + (height old - y - 1) * n_channels old + i) =
           pixels old ! nat (y * rowstride old + x * n_channels old + i))) \<and>
     (\<exists>s' nb. RotateImage p 270 s = Inr (0, s') \<and> gImage s' = Some nb \<and>
        width nb = height old \<and> height nb = width old \<and>
        rowstride nb = ((width nb * n_channels old + 3) div 4) * 4 \<and>
        (\<forall>x y i. 0 \<le> x \<and> x < width old \<and> 0 \<le> y \<and> y < height old \<and> 0 \<le> i \<and> i < n_channels old \<longrightarrow>
           pixels nb ! nat ((width old - x - 1) * rowstride nb + y * n_channels old + i) =
           pixels old ! nat (y * rowstride old + x * n_channels old + i))) \<and>
     (\<exists>s' nb. RotateImage p 180 s = Inr (0, s') \<and> gImage s' = Some nb \<and>
        width nb = width old \<and> height nb = height old \<and>
        rowstride nb = ((width nb * n_channels old + 3) div 4) * 4 \<and>
        (\<forall>x y i. 0 \<le> x \<and> x < width old \<and> 0 \<le> y \<and> y < height old \<and> 0 \<le> i \<and> i < n_channels old \<longrightarrow>
           pixels nb ! nat ((height old - y - 1) * rowstride nb + (width old - x - 1) * n_channels old + i) =
           pixels old ! nat (y * rowstride old + x * n_channels old + i)))"
proof (intro conjI)
  have a90: "alloc_ok s (if (90::int) = 180 then width old else height old)
      (if (90::int) = 180 then height old else width old)" using assms(6) by simp
  from RotateImage_correct [of 90, OF _ assms(1-5) a90 assms(8-10)]
  obtain nb where nb: "RotateImage p 90 s = Inr (0, set_img p
        (img\<lparr>curWidth := width nb, curHeight := height nb, trueWidth := trueHeight img,
             trueHeight := trueWidth img, curRot := c_mod (curRot img + 90 + 360) 360\<rparr>)
        (emit (EvRotate 90) s\<lparr>gImage := Some nb\<rparr>))"
    "width nb = height old" "height nb = width old" "n_channels nb = n_channels old"
    "rowstride nb = ((width nb * n_channels nb + 3) div 4) * 4"
    "\<forall>x y i nx ny. 0 \<le> x \<and> x < width old \<and> 0 \<le> y \<and> y < height old \<and> 0 \<le> i \<and> i < n_channels old \<and>
        rotate_target 90 (width old) (height old) x y = Some (nx, ny) \<longrightarrow>
        pixels nb ! nat (ny * rowstride nb + nx * n_channels old + i) =
        pixels old ! nat (y * rowstride old + x * n_channels old + i)"
    by auto
  show "\<exists>s' nb. RotateImage p 90 s = Inr (0, s') \<and> gImage s' = Some nb \<and>
        width nb = height old \<and> height nb = width old \<and>
        rowstride nb = ((width nb * n_channels old + 3) div 4) * 4 \<and>
        (\<forall>x y i. 0 \<le> x \<and> x < width old \<and> 0 \<le> y \<and> y < height old \<and> 0 \<le> i \<and> i < n_channels old \<longrightarrow>
           pixels nb ! nat (x * rowstride nb + (height old - y - 1) * n_channels old + i) =
           pixels old ! nat (y * rowstride old + x * n_channels old + i))"
    apply (intro exI [of _ nb] exI conjI)
         apply (rule nb(1))
        apply (simp add: set_img_def)
       apply (rule nb(2))
      apply (rule nb(3))
     apply (simp only: nb(5) nb(4))
    using nb(6) by (simp add: rotate_target_def)
next
  have a270: "alloc_ok s (if (270::int) = 180 then width old else height old)
      (if (270::int) = 180 then height old else width old)" using assms(6) by simp
  from RotateImage_correct [of 270, OF _ assms(1-5) a270 assms(8-10)]
  obtain nb where nb: "RotateImage p 270 s = Inr (0, set_img p
        (img\<lparr>curWidth := width nb, curHeight := height nb, trueWidth := trueHeight img,
             trueHeight := trueWidth img, curRot := c_mod (curRot img + 270 + 360) 360\<rparr>)
        (emit (EvRotate 270) s\<lparr>gImage := Some nb\<rparr>))"
    "width nb = height old" "height nb = width old" "n_channels nb = n_channels old"
    "rowstride nb = ((width nb * n_channels nb + 3) div 4) * 4"
    "\<forall>x y i nx ny. 0 \<le> x \<and> x < width old \<and> 0 \<le> y \<and> y < height old \<and> 0 \<le> i \<and> i < n_channels old \<and>
        rotate_target 270 (width old) (height old) x y = Some (nx, ny) \<longrightarrow>
        pixels nb ! nat (ny * rowstride nb + nx * n_channels old + i) =
        pixels old ! nat (y * rowstride old + x * n_channels old + i)"
    by auto
  show "\<exists>s' nb. RotateImage p 270 s = Inr (0, s') \<and> gImage s' = Some nb \<and>
        width nb = height old \<and> height nb = width old \<and>
        rowstride nb = ((width nb * n_channels old + 3) div 4) * 4 \<and>
        (\<forall>x y i. 0 \<le> x \<and> x < width old \<and> 0 \<le> y \<and> y < height old \<and> 0 \<le> i \<and> i < n_channels old \<longrightarrow>
           pixels nb ! nat ((width old - x - 1) * rowstride nb + y * n_channels old + i) =
           pixels old ! nat (y * rowstride old + x * n_channels old + i))"
    apply (intro exI [of _ nb] exI conjI)
         apply (rule nb(1))
        apply (simp add: set_img_def)
       apply (rule nb(2))
      apply (rule nb(3))
     apply (simp only: nb(5) nb(4))
    using nb(6) by (simp add: rotate_target_def)
next
  have a180: "alloc_ok s (if (180::int) = 180 then width old else height old)
      (if (180::int) = 180 then height old else width old)" using assms(7) by simp
  from RotateImage_correct [of 180, OF _ assms(1-5) a180 assms(8-10)]
  obtain nb where nb: "RotateImage p 180 s = Inr (0, set_img p
        (img\<lparr>curWidth := width nb, curHeight := height nb, trueWidth := trueWidth img,
             trueHeight := trueHeight img, curRot := c_mod (curRot img + 180 + 360) 360\<rparr>)
        (emit (EvRotate 180) s\<lparr>gImage := Some nb\<rparr>))"
    "width nb = width old" "height nb = height old" "n_channels nb = n_channels old"
    "rowstride nb = ((width nb * n_channels nb + 3) div 4) * 4"
    "\<forall>x y i nx ny. 0 \<le> x \<and> x < width old \<and> 0 \<le> y \<and> y < height old \<and> 0 \<le> i \<and> i < n_channels old \<and>
        rotate_target 180 (width old) (height old) x y = Some (nx, ny) \<longrightarrow>
        pixels nb ! nat (ny * rowstride nb + nx * n_channels old + i) =
        pixels old ! nat (y * rowstride old + x * n_channels old + i)"
    by auto
  show "\<exists>s' nb. RotateImage p 180 s = Inr (0, s') \<and> gImage s' = Some nb \<and>
        width nb = width old \<and> height nb = height old \<and>
        rowstride nb = ((width nb * n_channels old + 3) div 4) * 4 \<and>
        (\<forall>x y i. 0 \<le> x \<and> x < width old \<and> 0 \<le> y \<and> y < height old \<and> 0 \<le> i \<and> i < n_channels old \<longrightarrow>
           pixels nb ! nat ((height old - y - 1) * rowstride nb + (width old - x - 1) * n_channels old + i) =
           pixels old ! nat (y * rowstride old + x * n_channels old + i))"
    apply (intro exI [of _ nb] exI conjI)
         apply (rule nb(1))
        apply (simp add: set_img_def)
       apply (rule nb(2))
      apply (rule nb(3))
     apply (simp only: nb(5) nb(4))
    using nb(6) by (simp add: rotate_target_def)
qed

text \<open>A quarter turn and its inverse, or two half turns, under the same conditions.\<close>

lemma RotateImage_twice:
  assumes d: "d = 90 \<or> d = 180 \<or> d = 270" and e: "e = (if d = 180 then 180 else 360 - d)"
    and img: "deref s p = Some img" and buf: "gImage s = Some old" and wf: "wf_pixbuf old"
    and dims: "curWidth img = width old" "curHeight img = height old"
    and alloc: "alloc_ok s (height old) (width old)" "alloc_ok s (width old) (height old)"
    and fits: "fits old" and rot: "0 \<le> curRot img" "curRot img < 360"
  shows "\<exists>s1 s2 nb. RotateImage p d s = Inr (0, s1) \<and> RotateImage p e s1 = Inr (0, s2) \<and>
           gImage s2 = Some nb \<and> width nb = width old \<and> height nb = height old \<and>
           n_channels nb = n_channels old \<and>
           (\<forall>x y i. 0 \<le> x \<and> x < width old \<and> 0 \<le> y \<and> y < height old \<and> 0 \<le> i \<and> i < n_channels old \<longrightarrow>
              get_pixel nb x y i = get_pixel old x y i)"
proof -
  let ?nw = "if d = 180 then width old else height old"
  let ?nh = "if d = 180 then height old else width old"
  have a1: "alloc_ok s ?nw ?nh" using alloc by simp
  from RotateImage_correct [OF d img buf wf dims a1 fits rot]
  obtain nb1 where r1: "RotateImage p d s = Inr (0, set_img p
        (img\<lparr>curWidth := width nb1, curHeight := height nb1,
             trueWidth := (if d = 180 then trueWidth img else trueHeight img),
             trueHeight := (if d = 180 then trueHeight img else trueWidth img),
             curRot := c_mod (curRot img + d + 360) 360\<rparr>)
        (emit (EvRotate d) s\<lparr>gImage := Some nb1\<rparr>))"
    and w1: "wf_pixbuf nb1" and g1: "width nb1 = ?nw" "height nb1 = ?nh"
    and c1: "n_channels nb1 = n_channels old"
    and rs1: "rowstride nb1 = ((width nb1 * n_channels nb1 + 3) div 4) * 4"
    and m1: "\<forall>x y i nx ny. 0 \<le> x \<and> x < width old \<and> 0 \<le> y \<and> y < height old \<and> 0 \<le> i \<and> i < n_channels old \<and>
        rotate_target d (width old) (height old) x y = Some (nx, ny) \<longrightarrow>
        pixels nb1 ! nat (ny * rowstride nb1 + nx * n_channels old + i) =
        pixels old ! nat (y * rowstride old + x * n_channels old + i)"
    by blast
  let ?img1 = "img\<lparr>curWidth := width nb1, curHeight := height nb1,
             trueWidth := (if d = 180 then trueWidth img else trueHeight img),
             trueHeight := (if d = 180 then trueHeight img else trueWidth img),
             curRot := c_mod (curRot img + d + 360) 360\<rparr>"
  let ?s1 = "set_img p ?img1 (emit (EvRotate d) s\<lparr>gImage := Some nb1\<rparr>)"
  have p0: "p \<noteq> 0" using img by (auto simp: deref_def split: if_splits)
  have e3: "e = 90 \<or> e = 180 \<or> e = 270" using d e by auto
  have i2: "deref ?s1 p = Some ?img1" using p0 by (simp add: deref_def set_img_def)
  have b2: "gImage ?s1 = Some nb1" by (simp add: set_img_def)
  have d2: "curWidth ?img1 = width nb1" "curHeight ?img1 = height nb1" by simp_all
  have a2: "alloc_ok ?s1 (if e = 180 then width nb1 else height nb1)
      (if e = 180 then height nb1 else width nb1)"
    using alloc d e g1 by (auto simp: set_img_def emit_def)
  have f2: "fits nb1"
    using fits d unfolding fits_def rs1 g1 c1 by auto
  have rot2: "0 \<le> curRot ?img1" "curRot ?img1 < 360"
    using c_mod_turn [OF rot d] by simp_all
  from RotateImage_correct [OF e3 i2 b2 w1 d2 a2 f2 rot2]
  obtain nb2 s2 where r2: "RotateImage p e ?s1 = Inr (0, s2)" and b3: "gImage s2 = Some nb2"
    and g2: "width nb2 = (if e = 180 then width nb1 else height nb1)"
      "height nb2 = (if e = 180 then height nb1 else width nb1)"
    and c2: "n_channels nb2 = n_channels nb1"
    and m2: "\<forall>x y i nx ny. 0 \<le> x \<and> x < width nb1 \<and> 0 \<le> y \<and> y < height nb1 \<and> 0 \<le> i \<and> i < n_channels nb1 \<and>
        rotate_target e (width nb1) (height nb1) x y = Some (nx, ny) \<longrightarrow>
        pixels nb2 ! nat (ny * rowstride nb2 + nx * n_channels nb1 + i) =
        pixels nb1 ! nat (y * rowstride nb1 + x * n_channels nb1 + i)"
    by (auto simp: set_img_def)
  have gw: "width nb2 = width old" "height nb2 = height old"
    using g1 g2 d e by auto
  have px: "get_pixel nb2 x y i = get_pixel old x y i"
    if r: "0 \<le> x" "x < width old" "0 \<le> y" "y < height old" "0 \<le> i" "i < n_channels old" for x y i
  proof -
    obtain nx ny where t1: "rotate_target d (width old) (height old) x y = Some (nx, ny)"
      using d by (auto simp: rotate_target_def)
    have n: "0 \<le> nx" "nx < width nb1" "0 \<le> ny" "ny < height nb1"
      using rotate_target_range [OF t1 r(1-4)] g1 by auto
    have t2: "rotate_target e (width nb1) (height nb1) nx ny = Some (x, y)"
      using t1 d e g1 by (auto simp: rotate_target_def split: if_splits)
    have "pixels nb2 ! nat (y * rowstride nb2 + x * n_channels nb1 + i) =
        pixels nb1 ! nat (ny * rowstride nb1 + nx * n_channels nb1 + i)"
      using m2 [rule_format, of nx ny i x y] n r(5,6) c1 t2 by simp
    also have "\<dots> = pixels old ! nat (y * rowstride old + x * n_channels old + i)"
      using m1 [rule_format, of x y i nx ny] r t1 c1 by simp
    finally show ?thesis by (simp add: get_pixel_def pixel_index_def c1 c2)
  qed
  show ?thesis
    apply (rule exI [of _ ?s1], rule exI [of _ s2], rule exI [of _ nb2], intro conjI)
          apply (rule r1)
         apply (rule r2)
        apply (rule b3)
       apply (rule gw(1))
      apply (rule gw(2))
     apply (simp add: c1 c2)
    using px by blast
qed


lemma RotateImage_round_trip:
  assumes "deref s p = Some img" and "gImage s = Some old" and "wf_pixbuf old"
    and "curWidth img = width old" and "curHeight img = height old"
    and "alloc_ok s (height old) (width old)" and "alloc_ok s (width old) (height old)"
    and "fits old" and "0 \<le> curRot img" and "curRot img < 360"
  shows
    "(\<exists>s1 s2 nb. RotateImage p 90 s = Inr (0, s1) \<and> RotateImage p 270 s1 = Inr (0, s2) \<and>
        gImage s2 = Some nb \<and> width nb = width old \<and> height nb = height old \<and>
        n_channels nb = n_channels old \<and>
        (\<forall>x y i. 0 \<le> x \<and> x < width old \<and> 0 \<le> y \<and> y < height old \<and> 0 \<le> i \<and> i < n_channels old \<longrightarrow>
           get_pixel nb x y i = get_pixel old x y i)) \<and>
     (\<exists>s1 s2 nb. RotateImage p 180 s = Inr (0, s1) \<and> RotateImage p 180 s1 = Inr (0, s2) \<and>
        gImage s2 = Some nb \<and> width nb = width old \<and> height nb = height old \<and>
        n_channels nb = n_channels old \<and>
        (\<forall>x y i. 0 \<le> x \<and> x < width old \<and> 0 \<le> y \<and> y < height old \<and> 0 \<le> i \<and> i < n_channels old \<longrightarrow>
           get_pixel nb x y i = get_pixel old x y i))"
proof (rule conjI)
  show "\<exists>s1 s2 nb. RotateImage p 90 s = Inr (0, s1) \<and> RotateImage p 270 s1 = Inr (0, s2) \<and>
        gImage s2 = Some nb \<and> width nb = width old \<and> height nb = height old \<and>
        n_channels nb = n_channels old \<and>
        (\<forall>x y i. 0 \<le> x \<and> x < width old \<and> 0 \<le> y \<and> y < height old \<and> 0 \<le> i \<and> i < n_channels old \<longrightarrow>
           get_pixel nb x y i = get_pixel old x y i)"
    by (rule RotateImage_twice [of 90 270, OF _ _ assms]) simp_all
  show "\<exists>s1 s2 nb. RotateImage p 180 s = Inr (0, s1) \<and> RotateImage p 180 s1 = Inr (0, s2) \<and>
        gImage s2 = Some nb \<and> width nb = width old \<and> height nb = height old \<and>
        n_channels nb = n_channels old \<and>
        (\<forall>x y i. 0 \<le> x \<and> x < width old \<and> 0 \<le> y \<and> y < height old \<and> 0 \<le> i \<and> i < n_channels old \<longrightarrow>
           get_pixel nb x y i = get_pixel old x y i)"
    by (rule RotateImage_twice [of 180 180, OF _ _ assms]) simp_all
qed

text \<open>Evaluating the arithmetic of doubles on numerals.\<close>

lemma floor_rat_numeral: "\<lfloor>(numeral a :: rat) / numeral b\<rfloor> = numeral a div numeral b"
  using floor_divide_of_int_eq [of "numeral a" "numeral b", where ?'a = rat] by simp

lemma ceiling_rat_numeral: "\<lceil>(numeral a :: rat) / numeral b\<rceil> = - ((- numeral a) div numeral b)"
  using floor_divide_of_int_eq [of "- numeral a" "numeral b", where ?'a = rat]
  by (simp add: ceiling_def)

lemmas d_eval = d_of_int_def d_round_def floor_log2_def pow2_def round_even_def trunc_rat_def
  Let_def compute_bitlen floor_rat_numeral ceiling_rat_numeral



lemma then_do_Inr_iff:
  "then_do m f = Inr y \<longleftrightarrow> (\<exists>x. m = Inr x \<and> f x = Inr y)"
  by (cases m) (simp_all add: then_do_def)

lemma then_do_simps [simp]: "then_do (Inr x) f = f x" "then_do (Inl e) f = Inl e"
  by (simp_all add: then_do_def)







lemma c_mod_range: "- 360 < c_mod a 360 \<and> c_mod a 360 < 360"
proof (cases "0 \<le> a")
  case True
  then have "c_mod a 360 = a mod 360"
    by (cases "a = 0") (simp_all add: c_mod_def c_div_def minus_div_mult_eq_mod)
  then show ?thesis by simp
next
  case False
  then have "c_mod a 360 = - ((- a) mod 360)"
    by (simp add: c_mod_def c_div_def algebra_simps minus_div_mult_eq_mod [symmetric])
  moreover have "0 \<le> (- a) mod 360 \<and> (- a) mod 360 < 360" by simp
  ultimately show ?thesis by linarith
qed

lemma sar_plan_degrees:
  assumes "sar_plan p degrees0 s = Inr (l, s1)"
  shows "l_degrees l = c_mod (degrees0 + 360) 360"
  using assms
  by (auto simp: sar_plan_def Let_def then_do_Inr_iff split: option.splits)

lemma deref_emit [simp]: "deref (emit e s) p = deref s p"
  by (simp add: deref_def emit_def)

lemma deref_set_img: "deref (set_img p img s) q = (if q = p \<and> p \<noteq> 0 then Some img else deref s q)"
  by (simp add: deref_def set_img_def)

lemma deref_gImage_update [simp]: "deref (s\<lparr>gImage := b\<rparr>) p = deref s p"
  by (simp add: deref_def)

lemma deref_nonzero: "deref s p = Some img \<Longrightarrow> p \<noteq> 0"
  by (auto simp: deref_def split: if_splits)

lemma loaded_record_fields [simp]:
  "curRot (loaded_record s img pb) = curRot img"
  "filename (loaded_record s img pb) = filename img"
  "next_img (loaded_record s img pb) = next_img img"
  "prev_img (loaded_record s img pb) = prev_img img"
  "curWidth (loaded_record s img pb) = width pb"
  "curHeight (loaded_record s img pb) = height pb"
  by (simp_all add: loaded_record_def Let_def)

lemma loaded_record_true:
  "trueWidth img \<noteq> 0 \<Longrightarrow> trueHeight img \<noteq> 0 \<Longrightarrow>
     trueWidth (loaded_record s img pb) = trueWidth img \<and>
     trueHeight (loaded_record s img pb) = trueHeight img"
  by (simp add: loaded_record_def Let_def)

lemma LoadImageFromFile_eq:
  assumes "deref s p = Some img"
  shows "LoadImageFromFile p s =
     (case files s (filename img) of
        None \<Rightarrow> Inr (- 1, emit (EvLoad (filename img)) (s\<lparr>gImage := None\<rparr>))
      | Some pb \<Rightarrow> Inr (0, set_img p (loaded_record s img pb)
                            (emit (EvLoad (filename img)) (s\<lparr>gImage := Some pb\<rparr>))))"
  using assms deref_nonzero [OF assms]
  by (auto simp: LoadImageFromFile_def Let_def emit_def set_img_def split: option.splits)

text \<open>
  Claim C1. After the target size is computed (\<open>sar_plan\<close>), \<open>ScaleAndRotate\<close> loads
  the image from its file again exactly when the target exceeds the working current
  size on at least one axis and the working current size is strictly smaller than the
  working true size on both axes. On that reload the pending rotation becomes the
  absolute rotation \<open>(degrees + curRot) mod 360\<close>, \<open>curRot\<close> of the record is set to 0,
  and the record's true width and height are taken from the freshly decoded buffer,
  swapped when the new rotation is a quarter turn (\<open>-1\<close> each when the file
  cannot be decoded). Otherwise nothing is loaded and nothing changes.
\<close>

theorem C1_reload_on_upscale:
  assumes plan: "sar_plan p degrees0 s0 = Inr (l, s)"
    and img: "deref s p = Some img" and rot: "0 \<le> curRot img"
  shows "\<exists>l' s'. sar_reload p l s = Inr (l', s') \<and>
     (if (l_cur_width l < l_new_width l \<or> l_cur_height l < l_new_height l) \<and>
         l_cur_width l < l_true_width l \<and> l_cur_height l < l_true_height l
      then events s' = events s @ [EvLoad (filename img)] \<and>
           gImage s' = files s (filename img) \<and>
           l_degrees l' = (l_degrees l + curRot img) mod 360 \<and>
           l_aspect_changing l' = (l_degrees l' mod 180 \<noteq> 0) \<and>
           (\<exists>img'. deref s' p = Some img' \<and> curRot img' = 0 \<and>
              trueWidth img' = (if l_aspect_changing l' then gdk_pixbuf_get_height (gImage s')
                                else gdk_pixbuf_get_width (gImage s')) \<and>
              trueHeight img' = (if l_aspect_changing l' then gdk_pixbuf_get_width (gImage s')
                                 else gdk_pixbuf_get_height (gImage s')) \<and>
              l_true_width l' = trueWidth img' \<and> l_true_height l' = trueHeight img' \<and>
              l_cur_width l' = trueWidth img' \<and> l_cur_height l' = trueHeight img')
      else l' = l \<and> s' = s)"
proof (cases "needs_reload l")
  case False
  then show ?thesis by (auto simp: sar_reload_def needs_reload_def)
next
  case True
  have p0: "p \<noteq> 0" by (rule deref_nonzero [OF img])
  let ?d = "c_mod (l_degrees l + curRot img + 360) 360"
  have "- 360 < l_degrees l" using sar_plan_degrees [OF plan] c_mod_range by simp
  then have d: "?d = (l_degrees l + curRot img) mod 360"
    using rot by (simp add: c_mod_nonneg)
  then have d0: "0 \<le> ?d" "?d < 360" by simp_all
  have "(?d + 360) mod 180 = (?d + 180 * 2) mod 180" by simp
  also have "\<dots> = ?d mod 180" by (rule mod_mult_self2)
  finally have a: "(c_mod (?d + 360) 180 \<noteq> 0) = (?d mod 180 \<noteq> 0)"
    using d0 by (simp add: c_mod_nonneg)
  let ?s0 = "set_img p (img\<lparr>curRot := 0\<rparr>) s"
  let ?fn = "filename img"
  have i0: "deref ?s0 p = Some (img\<lparr>curRot := 0\<rparr>)" using p0 by (simp add: deref_set_img)
  have f0: "files ?s0 = files s" by (simp add: set_img_def)
  have fn0: "filename (img\<lparr>curRot := 0\<rparr>) = ?fn" by simp
  have Leq: "LoadImageFromFile p ?s0 =
     (case files s ?fn of
        None \<Rightarrow> Inr (- 1, emit (EvLoad ?fn) (?s0\<lparr>gImage := None\<rparr>))
      | Some pb \<Rightarrow> Inr (0, set_img p (loaded_record ?s0 (img\<lparr>curRot := 0\<rparr>) pb)
                            (emit (EvLoad ?fn) (?s0\<lparr>gImage := Some pb\<rparr>))))"
    using LoadImageFromFile_eq [OF i0] unfolding f0 fn0 .
  obtain e s1 img1 where L: "LoadImageFromFile p ?s0 = Inr (e, s1)"
    and s1: "deref s1 p = Some img1" "curRot img1 = 0" "gImage s1 = files s ?fn"
      "events s1 = events s @ [EvLoad ?fn]"
  proof (cases "files s ?fn")
    case None
    have "LoadImageFromFile p ?s0 = Inr (- 1, emit (EvLoad ?fn) (?s0\<lparr>gImage := None\<rparr>))"
      using Leq None by simp
    then show ?thesis
      by (rule that [of "- 1" "emit (EvLoad ?fn) (?s0\<lparr>gImage := None\<rparr>)" "img\<lparr>curRot := 0\<rparr>"])
         (simp_all add: None p0 emit_def set_img_def deref_def)
  next
    case (Some pb)
    have "LoadImageFromFile p ?s0 = Inr (0, set_img p (loaded_record ?s0 (img\<lparr>curRot := 0\<rparr>) pb)
                (emit (EvLoad ?fn) (?s0\<lparr>gImage := Some pb\<rparr>)))"
      using Leq Some by simp
    then show ?thesis
      by (rule that [of 0 "set_img p (loaded_record ?s0 (img\<lparr>curRot := 0\<rparr>) pb)
                (emit (EvLoad ?fn) (?s0\<lparr>gImage := Some pb\<rparr>))"
              "loaded_record ?s0 (img\<lparr>curRot := 0\<rparr>) pb"])
         (simp_all add: Some p0 emit_def set_img_def deref_def)
  qed
  let ?a = "?d mod 180 \<noteq> 0"
  let ?w = "if ?a then gdk_pixbuf_get_height (gImage s1) else gdk_pixbuf_get_width (gImage s1)"
  let ?h = "if ?a then gdk_pixbuf_get_width (gImage s1) else gdk_pixbuf_get_height (gImage s1)"
  let ?l' = "l\<lparr>l_degrees := ?d, l_aspect_changing := ?a, l_true_width := ?w, l_true_height := ?h,
               l_cur_width := ?w, l_cur_height := ?h\<rparr>"
  let ?img' = "img1\<lparr>trueWidth := ?w, trueHeight := ?h\<rparr>"
  let ?s' = "set_img p ?img' s1"
  have run: "sar_reload p l s = Inr (?l', ?s')"
    using True img by (simp add: sar_reload_def Let_def L s1(1) a)
  have props: "events ?s' = events s @ [EvLoad ?fn]" "gImage ?s' = files s ?fn"
    "l_degrees ?l' = (l_degrees l + curRot img) mod 360"
    "l_aspect_changing ?l' = (l_degrees ?l' mod 180 \<noteq> 0)"
    "deref ?s' p = Some ?img'" "curRot ?img' = 0"
    using s1 p0 d by (simp_all add: set_img_def deref_def)
  have dims: "trueWidth ?img' = (if l_aspect_changing ?l' then gdk_pixbuf_get_height (gImage ?s')
                                else gdk_pixbuf_get_width (gImage ?s'))"
    "trueHeight ?img' = (if l_aspect_changing ?l' then gdk_pixbuf_get_width (gImage ?s')
                                 else gdk_pixbuf_get_height (gImage ?s'))"
    "l_true_width ?l' = trueWidth ?img'" "l_true_height ?l' = trueHeight ?img'"
    "l_cur_width ?l' = trueWidth ?img'" "l_cur_height ?l' = trueHeight ?img'"
    by (simp_all add: set_img_def)
  have c: "(l_cur_width l < l_new_width l \<or> l_cur_height l < l_new_height l) \<and>
         l_cur_width l < l_true_width l \<and> l_cur_height l < l_true_height l"
    using True by (simp add: needs_reload_def)
  show ?thesis
    apply (rule exI [of _ ?l'], rule exI [of _ ?s'])
    apply (subst if_P [OF c])
    apply (intro conjI)
         apply (rule run)
        apply (rule props(1))
       apply (rule props(2))
      apply (rule props(3))
     apply (rule props(4))
    apply (rule exI [of _ ?img'])
    using props(5,6) dims by blast
qed

theorem C1_reload_on_upscale_witness:
  "\<exists>l s l' s' img'. sar_plan 16 0 st_b = Inr (l, s) \<and> sar_reload 16 l s = Inr (l', s') \<and>
     events s' = [EvLoad ''b.jpg''] \<and> l_degrees l' = 90 \<and> deref s' 16 = Some img' \<and>
     curRot img' = 0 \<and> trueWidth img' = 2 \<and> trueHeight img' = 4"
proof -
  let ?l = "\<lparr>l_degrees = 0, l_aspect_changing = False, l_true_width = 2, l_true_height = 4,
             l_cur_width = 1, l_cur_height = 2, l_new_width = 2, l_new_height = 4\<rparr>"
  have plan: "sar_plan 16 0 st_b = Inr (?l, st_b)"
    by (simp add: sar_plan_def st_b_def st_a_def img_b_def deref_def Let_def c_mod_def c_div_def
        target_size_def)
  have img: "deref st_b 16 = Some img_b" by (simp add: st_b_def deref_def)
  have rot: "0 \<le> curRot img_b" by (simp add: img_b_def)
  have c: "(l_cur_width ?l < l_new_width ?l \<or> l_cur_height ?l < l_new_height ?l) \<and>
         l_cur_width ?l < l_true_width ?l \<and> l_cur_height ?l < l_true_height ?l" by simp
  from C1_reload_on_upscale [OF plan img rot]
  obtain l' s' img' where r: "sar_reload 16 ?l st_b = Inr (l', s')"
    "events s' = events st_b @ [EvLoad (filename img_b)]" "gImage s' = files st_b (filename img_b)"
    "l_degrees l' = (l_degrees ?l + curRot img_b) mod 360"
    "l_aspect_changing l' = (l_degrees l' mod 180 \<noteq> 0)"
    "deref s' 16 = Some img'" "curRot img' = 0"
    "trueWidth img' = (if l_aspect_changing l' then gdk_pixbuf_get_height (gImage s')
                                else gdk_pixbuf_get_width (gImage s'))"
    "trueHeight img' = (if l_aspect_changing l' then gdk_pixbuf_get_width (gImage s')
                                 else gdk_pixbuf_get_height (gImage s'))"
    by (auto simp: img_b_def)
  have d: "l_degrees l' = 90" using r(4) by (simp add: img_b_def)
  then have a: "l_aspect_changing l'" using r(5) by simp
  have g: "gImage s' = Some buf_b" using r(3) by (simp add: st_b_def img_b_def)
  have t: "trueWidth img' = 2" "trueHeight img' = 4"
    using r(8,9) a g by (simp_all add: gdk_pixbuf_get_width_def gdk_pixbuf_get_height_def buf_b_def)
  have e: "events s' = [EvLoad ''b.jpg'']" using r(2) by (simp add: st_b_def st_a_def img_b_def)
  show ?thesis
    apply (rule exI [of _ ?l], rule exI [of _ st_b], rule exI [of _ l'], rule exI [of _ s'],
        rule exI [of _ img'])
    using plan r(1) e d r(6) r(7) t by simp
qed

lemma RotateImage_events:
  assumes "RotateImage p d s = Inr (r, s')"
  shows "events s' = events s @ [EvRotate d]"
  using assms
  by (auto simp: RotateImage_def Let_def emit_def set_img_def
      split: option.splits if_splits sum.splits rot_exit.splits)

lemma sar_rotate_first_Inr:
  assumes "sar_rotate_first p l s = Inr (l1, unrot, s1)"
  shows "if rotates_first l
         then events s1 = events s @ [EvRotate (l_degrees l)] \<and> l_degrees l1 = 0 \<and>
              unrot = (l_new_width l, l_new_height l)
         else s1 = s \<and> l1 = l \<and>
              unrot = (if l_aspect_changing l then (l_new_height l, l_new_width l)
                       else (l_new_width l, l_new_height l))"
  using assms
  by (auto simp: sar_rotate_first_def then_do_Inr_iff RotateImage_events split: if_splits)

lemma sar_scale_Inr:
  assumes "sar_scale p l unrot s = Inr out"
  shows "(\<exists>s'. out = Aborted s' \<and>
            s' = emit (EvPrompt scale_failure_message) (emit (EvScale (fst unrot) (snd unrot)) s)) \<or>
         (\<exists>l' s'. out = Scaled l' s' \<and> l_degrees l' = l_degrees l \<and>
            (events s' = events s \<or> events s' = events s @ [EvScale (fst unrot) (snd unrot)]))"
  using assms
  by (auto simp: sar_scale_def Let_def emit_def split: option.splits if_splits)

lemma sar_finish_Inr:
  assumes "sar_finish p l s = Inr s'"
  shows "events s' = events s @ (if l_degrees l \<noteq> 0 then [EvRotate (l_degrees l)] else []) @
           [EvPrepareWindow]"
  using assms
  by (auto simp: sar_finish_def Let_def then_do_Inr_iff emit_def set_img_def
      dest!: RotateImage_events split: option.splits if_splits)

text \<open>
  The order of the calls. \<open>sar_tail\<close> is \<open>ScaleAndRotate\<close> from line 390 on; \<open>l_degrees\<close>
  is the rotation still to apply there: the requested one, or after a reload the requested
  one plus the saved one. When it is not zero and the target is larger than the working
  current size on either axis, \<open>RotateImage\<close> is called first, the scaling (if one is
  needed) follows, and no rotation comes after it. Otherwise the scaling (if one is needed)
  comes first and \<open>RotateImage\<close> is called after it exactly when the rotation is not zero.
  The only runs that end before \<open>PrepareWindow\<close> are those whose scaling failed: they end
  with the prompt, and on the second path without a rotation. This is about the calls of a
  run that returns; what the call of \<open>RotateImage\<close> does to the buffer is another matter
  (see the quarter turn at an unchanged size below).
\<close>

lemma rotation_call_order:
  assumes "sar_tail p l s = Inr s'"
  shows "if l_degrees l \<noteq> 0 \<and> (l_cur_width l < l_new_width l \<or> l_cur_height l < l_new_height l)
     then \<exists>rest. events s' = events s @ EvRotate (l_degrees l) # rest \<and>
            rest \<in> {[EvPrepareWindow],
                    [EvScale (l_new_width l) (l_new_height l), EvPrepareWindow],
                    [EvScale (l_new_width l) (l_new_height l), EvPrompt scale_failure_message]}
     else let unrot = (if l_aspect_changing l then (l_new_height l, l_new_width l)
                       else (l_new_width l, l_new_height l))
          in (\<exists>sc. (sc = [] \<or> sc = [EvScale (fst unrot) (snd unrot)]) \<and>
                events s' = events s @ sc @
                  (if l_degrees l \<noteq> 0 then [EvRotate (l_degrees l)] else []) @ [EvPrepareWindow]) \<or>
             events s' = events s @ [EvScale (fst unrot) (snd unrot), EvPrompt scale_failure_message]"
proof -
  from assms obtain l1 unrot s1 out where
    rf: "sar_rotate_first p l s = Inr (l1, unrot, s1)"
    and sc: "sar_scale p l1 unrot s1 = Inr out"
    and fin: "(case out of Aborted s2 \<Rightarrow> Inr s2 | Scaled l2 s2 \<Rightarrow> sar_finish p l2 s2) = Inr s'"
    by (auto simp: sar_tail_def then_do_Inr_iff)
  note R = sar_rotate_first_Inr [OF rf]
  from sar_scale_Inr [OF sc]
  consider (ab) s2 where "out = Aborted s2"
      "s2 = emit (EvPrompt scale_failure_message) (emit (EvScale (fst unrot) (snd unrot)) s1)"
    | (ok) l2 s2 where "out = Scaled l2 s2" "l_degrees l2 = l_degrees l1"
      "events s2 = events s1 \<or> events s2 = events s1 @ [EvScale (fst unrot) (snd unrot)]"
    by blast
  note S = this
  show ?thesis
  proof (cases "rotates_first l")
    case True
    then have c: "l_degrees l \<noteq> 0 \<and> (l_cur_width l < l_new_width l \<or> l_cur_height l < l_new_height l)"
      by (simp add: rotates_first_def)
    from R True have r: "events s1 = events s @ [EvRotate (l_degrees l)]" "l_degrees l1 = 0"
      "unrot = (l_new_width l, l_new_height l)" by simp_all
    from S show ?thesis
    proof cases
      case ab
      then have "events s' = events s @ EvRotate (l_degrees l) #
          [EvScale (l_new_width l) (l_new_height l), EvPrompt scale_failure_message]"
        using fin r by (auto simp: emit_def)
      then show ?thesis by (simp add: c)
    next
      case ok
      note o = ok(1) and d = ok(2) and e = ok(3)
      from fin o have "sar_finish p l2 s2 = Inr s'" by simp
      from sar_finish_Inr [OF this] have "events s' = events s2 @ [EvPrepareWindow]"
        using d r(2) by simp
      with e r show ?thesis by (auto simp: c)
    qed
  next
    case False
    then have c: "\<not> (l_degrees l \<noteq> 0 \<and> (l_cur_width l < l_new_width l \<or> l_cur_height l < l_new_height l))"
      by (simp add: rotates_first_def)
    from R False have r: "s1 = s" "l1 = l"
      "unrot = (if l_aspect_changing l then (l_new_height l, l_new_width l)
                else (l_new_width l, l_new_height l))" by simp_all
    from S show ?thesis
    proof cases
      case ab
      then have "events s' = events s @ [EvScale (fst unrot) (snd unrot), EvPrompt scale_failure_message]"
        using fin r(1) by (auto simp: emit_def)
      then show ?thesis unfolding if_not_P [OF c] Let_def r(3) [symmetric] by blast
    next
      case ok
      note o = ok(1) and d = ok(2) and e = ok(3)
      from fin o have "sar_finish p l2 s2 = Inr s'" by simp
      from sar_finish_Inr [OF this]
      have f: "events s' = events s2 @ (if l_degrees l \<noteq> 0 then [EvRotate (l_degrees l)] else []) @
           [EvPrepareWindow]"
        using d r(2) by simp
      have "\<exists>sc. (sc = [] \<or> sc = [EvScale (fst unrot) (snd unrot)]) \<and>
                events s' = events s @ sc @
                  (if l_degrees l \<noteq> 0 then [EvRotate (l_degrees l)] else []) @ [EvPrepareWindow]"
        using e
      proof
        assume "events s2 = events s1"
        then show ?thesis using f r(1) by (intro exI [of _ "[]"]) simp
      next
        assume "events s2 = events s1 @ [EvScale (fst unrot) (snd unrot)]"
        then show ?thesis using f r(1) by (intro exI [of _ "[EvScale (fst unrot) (snd unrot)]"]) simp
      qed
      then show ?thesis unfolding if_not_P [OF c] Let_def r(3) [symmetric] by blast
    qed
  qed
qed

lemma rotate_img_a:
  assumes "deref s 16 = Some img_a" and "gImage s = Some buf_a" and "alloc_ok s 1 2"
  shows "\<exists>nb. RotateImage 16 90 s =
           Inr (0, set_img 16 (img_a\<lparr>curWidth := 1, curHeight := 2, trueWidth := 1, trueHeight := 2,
                                   curRot := 90\<rparr>)
                     (emit (EvRotate 90) s\<lparr>gImage := Some nb\<rparr>)) \<and>
         width nb = 1 \<and> height nb = 2"
proof -
  have wf: "wf_pixbuf buf_a" by (simp add: wf_pixbuf_def buf_a_def)
  have dims: "curWidth img_a = width buf_a" "curHeight img_a = height buf_a"
    by (simp_all add: img_a_def buf_a_def)
  have al: "alloc_ok s (if (90::int) = 180 then width buf_a else height buf_a)
      (if (90::int) = 180 then height buf_a else width buf_a)"
    using assms(3) by (simp add: buf_a_def)
  have f: "fits buf_a" by (simp add: fits_def buf_a_def)
  have rt: "0 \<le> curRot img_a" "curRot img_a < 360" by (simp_all add: img_a_def)
  from RotateImage_correct [of 90, OF _ assms(1,2) wf dims al f rt]
  obtain nb where r: "RotateImage 16 90 s = Inr (0, set_img 16
        (img_a\<lparr>curWidth := width nb, curHeight := height nb,
               trueWidth := (if (90::int) = 180 then trueWidth img_a else trueHeight img_a),
               trueHeight := (if (90::int) = 180 then trueHeight img_a else trueWidth img_a),
               curRot := c_mod (curRot img_a + 90 + 360) 360\<rparr>)
        (emit (EvRotate 90) s\<lparr>gImage := Some nb\<rparr>))"
    and g: "width nb = (if (90::int) = 180 then width buf_a else height buf_a)"
      "height nb = (if (90::int) = 180 then height buf_a else width buf_a)"
    by blast
  have w: "width nb = 1" "height nb = 2" using g by (simp_all add: buf_a_def)
  have c: "c_mod (curRot img_a + 90 + 360) 360 = 90"
    by (simp add: img_a_def c_mod_def c_div_def)
  have t: "trueHeight img_a = 1" "trueWidth img_a = 2" by (simp_all add: img_a_def)
  show ?thesis
    apply (rule exI [of _ nb])
    using r w c t by simp
qed

lemma scale_by_ten: "scale_by 1 (DFin 10) = Inr 10" "scale_by 2 (DFin 10) = Inr 20"
  by (simp_all add: scale_by_def d_eval)

lemma sar_plan_st_c:
  assumes "gScaleMode s = PHO_SCALE_IMG_RATIO" and "gScaleRatio s = DFin 10"
    and "deref s 16 = Some img_a"
  shows "sar_plan 16 90 s = Inr (l_e, s)"
  using assms
  by (simp add: sar_plan_def Let_def c_mod_def c_div_def img_a_def target_size_def scale_by_ten
      snap_to_current_def l_e_def)

lemma sar_reload_l_e: "sar_reload 16 l_e s = Inr (l_e, s)"
  by (simp add: sar_reload_def needs_reload_def l_e_def)

lemma sar_scale_ok:
  assumes "deref s p = Some img" and "fst unrot \<noteq> curWidth img \<or> snd unrot \<noteq> curHeight img"
    and "gImage s = Some pb" and "scale_simple s pb (fst unrot) (snd unrot) = Some nb"
    and "1 \<le> width nb"
  shows "sar_scale p l unrot s =
           Inr (Scaled (l\<lparr>l_cur_width := width nb, l_cur_height := height nb\<rparr>)
                  (emit (EvScale (fst unrot) (snd unrot)) s\<lparr>gImage := Some nb\<rparr>))"
  using assms
  by (auto simp: sar_scale_def Let_def emit_def gdk_pixbuf_get_width_def gdk_pixbuf_get_height_def)

lemma sar_scale_fail:
  assumes "deref s p = Some img" and "fst unrot \<noteq> curWidth img \<or> snd unrot \<noteq> curHeight img"
    and "case gImage s of None \<Rightarrow> True
         | Some pb \<Rightarrow> (case scale_simple s pb (fst unrot) (snd unrot) of
                        None \<Rightarrow> True | Some nb \<Rightarrow> width nb < 1)"
  shows "sar_scale p l unrot s =
           Inr (Aborted (emit (EvPrompt scale_failure_message)
                           (emit (EvScale (fst unrot) (snd unrot)) s)))"
  using assms
  by (auto simp: sar_scale_def Let_def emit_def gdk_pixbuf_get_width_def split: option.splits)

lemma sar_finish_norot:
  assumes "deref s p = Some img" and "l_degrees l = 0"
  shows "sar_finish p l s =
           Inr (emit EvPrepareWindow
                  (set_img p (img\<lparr>curWidth := l_cur_width l, curHeight := l_cur_height l\<rparr>) s))"
  using assms by (simp add: sar_finish_def)

lemma rotation_call_order_example:
  "\<exists>s'. sar_tail 16 l_e st_e = Inr s' \<and>
     events s' = [EvRotate 90, EvScale 10 20, EvPrepareWindow]"
proof -
  have h: "deref st_e 16 = Some img_a" "gImage st_e = Some buf_a" "alloc_ok st_e 1 2"
    by (simp_all add: st_e_def st_c_def st_a_def deref_def)
  let ?img1 = "img_a\<lparr>curWidth := 1, curHeight := 2, trueWidth := 1, trueHeight := 2, curRot := 90\<rparr>"
  from rotate_img_a [OF h] obtain nb where
    r: "RotateImage 16 90 st_e =
           Inr (0, set_img 16 ?img1 (emit (EvRotate 90) st_e\<lparr>gImage := Some nb\<rparr>))"
    by blast
  let ?s1 = "set_img 16 ?img1 (emit (EvRotate 90) st_e\<lparr>gImage := Some nb\<rparr>)"
  let ?l1 = "l_e\<lparr>l_degrees := 0\<rparr>"
  have rf: "sar_rotate_first 16 l_e st_e = Inr (?l1, (10, 20), ?s1)"
    by (simp add: sar_rotate_first_def rotates_first_def l_e_def r)
  let ?nb2 = "nb\<lparr>width := 10, height := 20, rowstride := 10 * n_channels nb,
             pixels := replicate (nat (10 * n_channels nb * 20)) 0\<rparr>"
  have d1: "deref ?s1 16 = Some ?img1" by (simp add: deref_set_img)
  have sc: "sar_scale 16 ?l1 (10, 20) ?s1 =
      Inr (Scaled (?l1\<lparr>l_cur_width := width ?nb2, l_cur_height := height ?nb2\<rparr>)
             (emit (EvScale (fst (10::int, 20::int)) (snd (10::int, 20::int))) ?s1\<lparr>gImage := Some ?nb2\<rparr>))"
    by (rule sar_scale_ok [OF d1, of _ nb])
       (simp_all add: set_img_def emit_def st_e_def st_c_def)
  let ?l2 = "?l1\<lparr>l_cur_width := width ?nb2, l_cur_height := height ?nb2\<rparr>"
  let ?s2 = "emit (EvScale (fst (10::int, 20::int)) (snd (10::int, 20::int))) ?s1\<lparr>gImage := Some ?nb2\<rparr>"
  have d2: "deref ?s2 16 = Some ?img1" by (simp add: deref_set_img)
  have fin: "sar_finish 16 ?l2 ?s2 =
      Inr (emit EvPrepareWindow
             (set_img 16 (?img1\<lparr>curWidth := l_cur_width ?l2, curHeight := l_cur_height ?l2\<rparr>) ?s2))"
    by (rule sar_finish_norot [OF d2]) simp
  let ?s3 = "emit EvPrepareWindow
             (set_img 16 (?img1\<lparr>curWidth := l_cur_width ?l2, curHeight := l_cur_height ?l2\<rparr>) ?s2)"
  have t: "sar_tail 16 l_e st_e = Inr ?s3"
    unfolding sar_tail_def rf then_do_simps prod.case sc sar_outcome.case fin by (rule refl)
  have e0: "events st_e = []" by (simp add: st_e_def st_c_def st_a_def)
  from rotation_call_order [OF t]
  have "events ?s3 = [EvRotate 90, EvPrepareWindow] \<or>
        events ?s3 = [EvRotate 90, EvScale 10 20, EvPrepareWindow] \<or>
        events ?s3 = [EvRotate 90, EvScale 10 20, EvPrompt scale_failure_message]"
    by (auto simp: l_e_def e0)
  moreover have "events ?s3 = events st_e @ [EvRotate 90, EvScale 10 20, EvPrepareWindow]"
    by (simp add: emit_def set_img_def)
  ultimately have "events ?s3 = [EvRotate 90, EvScale 10 20, EvPrepareWindow]"
    using e0 by simp
  with t show ?thesis by blast
qed

text \<open>
  Claim C3 says that after a failed scaling the record holds the values of the entry
  to \<open>ScaleAndRotate\<close> and the buffer of the entry is still installed. It fails: a 2 by
  1 image shown at ten times its size is turned by 90 degrees; the rotation runs first,
  the scaling to 10 by 20 then fails, and the function returns with \<open>curRot = 90\<close>, the
  current size 1 by 2 and the rotated buffer installed.
\<close>

theorem C3_scale_failure_changes_record:
  "\<exists>s' img'. ScaleAndRotate 16 90 st_c = Inr s' \<and>
     last (events s') = EvPrompt scale_failure_message \<and>
     deref st_c 16 = Some img_a \<and> deref s' 16 = Some img' \<and>
     curRot img_a = 0 \<and> curRot img' = 90 \<and>
     curWidth img_a = 2 \<and> curWidth img' = 1 \<and>
     curHeight img_a = 1 \<and> curHeight img' = 2 \<and>
     gImage s' \<noteq> gImage st_c"
proof -
  have h: "deref st_c 16 = Some img_a" "gImage st_c = Some buf_a" "alloc_ok st_c 1 2"
    by (simp_all add: st_c_def st_a_def deref_def)
  have m: "gScaleMode st_c = PHO_SCALE_IMG_RATIO" "gScaleRatio st_c = DFin 10"
    by (simp_all add: st_c_def)
  note plan = sar_plan_st_c [OF m h(1)]
  let ?img1 = "img_a\<lparr>curWidth := 1, curHeight := 2, trueWidth := 1, trueHeight := 2, curRot := 90\<rparr>"
  from rotate_img_a [OF h] obtain nb where
    r: "RotateImage 16 90 st_c =
           Inr (0, set_img 16 ?img1 (emit (EvRotate 90) st_c\<lparr>gImage := Some nb\<rparr>))"
    and w: "width nb = 1"
    by blast
  let ?s1 = "set_img 16 ?img1 (emit (EvRotate 90) st_c\<lparr>gImage := Some nb\<rparr>)"
  let ?l1 = "l_e\<lparr>l_degrees := 0\<rparr>"
  have rf: "sar_rotate_first 16 l_e st_c = Inr (?l1, (10, 20), ?s1)"
    by (simp add: sar_rotate_first_def rotates_first_def l_e_def r)
  have d1: "deref ?s1 16 = Some ?img1" by (simp add: deref_set_img)
  have sc: "sar_scale 16 ?l1 (10, 20) ?s1 =
      Inr (Aborted (emit (EvPrompt scale_failure_message)
                      (emit (EvScale (fst (10::int, 20::int)) (snd (10::int, 20::int))) ?s1)))"
    by (rule sar_scale_fail [OF d1]) (simp_all add: set_img_def emit_def st_c_def st_a_def)
  let ?s' = "emit (EvPrompt scale_failure_message)
                      (emit (EvScale (fst (10::int, 20::int)) (snd (10::int, 20::int))) ?s1)"
  have run: "ScaleAndRotate 16 90 st_c = Inr ?s'"
    unfolding ScaleAndRotate_def plan then_do_simps prod.case sar_reload_l_e sar_tail_def rf sc
      sar_outcome.case by (rule refl)
  have "gImage ?s' = Some nb" by (simp add: emit_def set_img_def)
  moreover have "width buf_a \<noteq> width nb" using w by (simp add: buf_a_def)
  ultimately have g: "gImage ?s' \<noteq> gImage st_c" using h(2) by auto
  have e: "last (events ?s') = EvPrompt scale_failure_message" by (simp add: emit_def)
  have d: "deref ?s' 16 = Some ?img1" by (simp add: deref_set_img)
  show ?thesis
    apply (rule exI [of _ ?s'], rule exI [of _ ?img1])
    using run e h(1) d g by (simp add: img_a_def)
qed

lemma sar_plan_loaded:
  assumes "sar_plan p d0 s = Inr (l, s1)" and "deref s p = Some img"
    and "trueWidth img \<noteq> 0" and "trueHeight img \<noteq> 0"
  shows "s1 = s"
  using assms by (auto simp: sar_plan_def Let_def then_do_Inr_iff)

text \<open>
  Claim C3, amended. When the scaling step of \<open>ScaleAndRotate\<close> fails (no buffer to
  scale, no buffer returned, or one of a width below 1), the function returns without a
  fault, having asked the prompt to report the failure, and the state is the one in which
  the scaling step began: the same live buffer and the same records. That state is the
  state of the entry whenever the image was already loaded, no reload was due and the
  rotation did not run first.
\<close>

theorem C3_scale_failure:
  assumes plan: "sar_plan p degrees0 s = Inr (l, s1)"
    and reload: "sar_reload p l s1 = Inr (l1, s2)"
    and rotate: "sar_rotate_first p l1 s2 = Inr (l2, unrot, s3)"
    and img: "deref s3 p = Some img"
    and needed: "fst unrot \<noteq> curWidth img \<or> snd unrot \<noteq> curHeight img"
    and fails: "case gImage s3 of None \<Rightarrow> True
         | Some pb \<Rightarrow> (case scale_simple s3 pb (fst unrot) (snd unrot) of
                        None \<Rightarrow> True | Some nb \<Rightarrow> width nb < 1)"
  shows "ScaleAndRotate p degrees0 s =
           Inr (emit (EvPrompt scale_failure_message) (emit (EvScale (fst unrot) (snd unrot)) s3)) \<and>
         (\<forall>img0. deref s p = Some img0 \<and> trueWidth img0 \<noteq> 0 \<and> trueHeight img0 \<noteq> 0 \<and>
            \<not> ((l_cur_width l < l_new_width l \<or> l_cur_height l < l_new_height l) \<and>
               l_cur_width l < l_true_width l \<and> l_cur_height l < l_true_height l) \<and>
            \<not> (l_degrees l \<noteq> 0 \<and> (l_cur_width l < l_new_width l \<or> l_cur_height l < l_new_height l))
            \<longrightarrow> s3 = s)"
proof
  show "ScaleAndRotate p degrees0 s =
           Inr (emit (EvPrompt scale_failure_message) (emit (EvScale (fst unrot) (snd unrot)) s3))"
    unfolding ScaleAndRotate_def plan then_do_simps prod.case reload sar_tail_def rotate
      sar_scale_fail [OF img needed fails] sar_outcome.case by (rule refl)
  show "\<forall>img0. deref s p = Some img0 \<and> trueWidth img0 \<noteq> 0 \<and> trueHeight img0 \<noteq> 0 \<and>
            \<not> ((l_cur_width l < l_new_width l \<or> l_cur_height l < l_new_height l) \<and>
               l_cur_width l < l_true_width l \<and> l_cur_height l < l_true_height l) \<and>
            \<not> (l_degrees l \<noteq> 0 \<and> (l_cur_width l < l_new_width l \<or> l_cur_height l < l_new_height l))
            \<longrightarrow> s3 = s"
  proof (intro allI impI, elim conjE)
    fix img0 assume i: "deref s p = Some img0" "trueWidth img0 \<noteq> 0" "trueHeight img0 \<noteq> 0"
      and nr: "\<not> ((l_cur_width l < l_new_width l \<or> l_cur_height l < l_new_height l) \<and>
               l_cur_width l < l_true_width l \<and> l_cur_height l < l_true_height l)"
      and nf: "\<not> (l_degrees l \<noteq> 0 \<and> (l_cur_width l < l_new_width l \<or> l_cur_height l < l_new_height l))"
    have a: "s1 = s" by (rule sar_plan_loaded [OF plan i])
    have "\<not> needs_reload l" using nr by (simp add: needs_reload_def)
    then have b: "s2 = s1" "l1 = l" using reload by (simp_all add: sar_reload_def)
    have "\<not> rotates_first l1" using nf b(2) by (simp add: rotates_first_def)
    then have "s3 = s2" using sar_rotate_first_Inr [OF rotate] by simp
    with a b show "s3 = s" by simp
  qed
qed

theorem C3_scale_failure_witness:
  "ScaleAndRotate 16 0 st_d =
     Inr (emit (EvPrompt scale_failure_message) (emit (EvScale 2 1) st_d)) \<and>
   heap (emit (EvPrompt scale_failure_message) (emit (EvScale 2 1) st_d)) = heap st_d \<and>
   gImage (emit (EvPrompt scale_failure_message) (emit (EvScale 2 1) st_d)) = gImage st_d"
proof -
  let ?l = "\<lparr>l_degrees = 0, l_aspect_changing = False, l_true_width = 2, l_true_height = 1,
             l_cur_width = 4, l_cur_height = 2, l_new_width = 2, l_new_height = 1\<rparr>"
  have img: "deref st_d 16 = Some img_d" by (simp add: st_d_def deref_def)
  have plan: "sar_plan 16 0 st_d = Inr (?l, st_d)"
    by (simp add: sar_plan_def img Let_def c_mod_def c_div_def img_d_def target_size_def)
       (simp add: st_d_def st_a_def)
  have reload: "sar_reload 16 ?l st_d = Inr (?l, st_d)"
    by (simp add: sar_reload_def needs_reload_def)
  have rotate: "sar_rotate_first 16 ?l st_d = Inr (?l, (2, 1), st_d)"
    by (simp add: sar_rotate_first_def rotates_first_def)
  have needed: "fst (2::int, 1::int) \<noteq> curWidth img_d \<or> snd (2::int, 1::int) \<noteq> curHeight img_d"
    by (simp add: img_d_def)
  have fails: "case gImage st_d of None \<Rightarrow> True
         | Some pb \<Rightarrow> (case scale_simple st_d pb (fst (2::int, 1::int)) (snd (2::int, 1::int)) of
                        None \<Rightarrow> True | Some nb \<Rightarrow> width nb < 1)"
    by (simp add: st_d_def st_a_def)
  from C3_scale_failure [OF plan reload rotate img needed fails]
  show ?thesis by (simp add: emit_def)
qed

subsection \<open>The list and the timer under ScaleAndRotate\<close>

text \<open>
  What the loading, rotating and scaling of an image leave alone: the anchor, the cursor,
  the links and the file name of every record, the files, the slideshow delay and the timer.
\<close>

definition links_of :: "state \<Rightarrow> addr \<Rightarrow> (addr \<times> addr) option" where
  "links_of s a = map_option (\<lambda>img. (next_img img, prev_img img)) (deref s a)"

definition names_of :: "state \<Rightarrow> addr \<Rightarrow> string option" where
  "names_of s a = map_option filename (deref s a)"

definition kept :: "state \<Rightarrow> state \<Rightarrow> bool" where
  "kept s s' \<longleftrightarrow>
     gFirstImage s' = gFirstImage s \<and> gCurImage s' = gCurImage s \<and> links_of s' = links_of s \<and>
     names_of s' = names_of s \<and> files s' = files s \<and>
     gDelaySeconds s' = gDelaySeconds s \<and> gPendingTimeout s' = gPendingTimeout s \<and>
     timeouts s' = timeouts s \<and> last_source_id s' = last_source_id s"

lemma kept_refl [simp]: "kept s s"
  by (simp add: kept_def)

lemma kept_trans: "kept s s1 \<Longrightarrow> kept s1 s2 \<Longrightarrow> kept s s2"
  by (simp add: kept_def)

lemma kept_emit [simp]: "kept s (emit e s)"
  by (simp add: kept_def emit_def links_of_def names_of_def deref_def fun_eq_iff)

lemma kept_gImage [simp]: "kept s (s\<lparr>gImage := b\<rparr>)"
  by (simp add: kept_def links_of_def names_of_def deref_def fun_eq_iff)

lemma kept_set_img:
  assumes "deref s p = Some img" and "next_img img' = next_img img" and "prev_img img' = prev_img img"
    and "filename img' = filename img"
  shows "kept s (set_img p img' s)"
  using assms
  by (auto simp: kept_def set_img_def links_of_def names_of_def deref_def fun_eq_iff
      split: if_splits)

lemma kept_deref:
  assumes "kept s s'" and "deref s p = Some img"
  shows "\<exists>img'. deref s' p = Some img' \<and> next_img img' = next_img img \<and>
           prev_img img' = prev_img img \<and> filename img' = filename img"
proof -
  have "links_of s' p = links_of s p" "names_of s' p = names_of s p"
    using assms(1) by (simp_all add: kept_def)
  then show ?thesis using assms(2) by (auto simp: links_of_def names_of_def)
qed

lemma LoadImageFromFile_kept:
  assumes "LoadImageFromFile p s = Inr (e, s')"
  shows "kept s s'"
proof (cases "p = 0")
  case True
  then show ?thesis using assms by (simp add: LoadImageFromFile_def)
next
  case False
  then obtain img where img: "deref s p = Some img"
    using assms by (auto simp: LoadImageFromFile_def split: option.splits)
  show ?thesis
  proof (cases "files s (filename img)")
    case None
    then have "s' = emit (EvLoad (filename img)) (s\<lparr>gImage := None\<rparr>)"
      using assms LoadImageFromFile_eq [OF img] by simp
    then show ?thesis by (auto intro: kept_trans [OF kept_gImage kept_emit])
  next
    case (Some pb)
    let ?s1 = "emit (EvLoad (filename img)) (s\<lparr>gImage := Some pb\<rparr>)"
    have s': "s' = set_img p (loaded_record s img pb) ?s1"
      using assms LoadImageFromFile_eq [OF img] Some by simp
    have k1: "kept s ?s1" by (rule kept_trans [OF kept_gImage kept_emit])
    have "deref ?s1 p = Some img" using img by simp
    then have "kept ?s1 (set_img p (loaded_record s img pb) ?s1)"
      by (rule kept_set_img) simp_all
    with k1 show ?thesis unfolding s' by (rule kept_trans)
  qed
qed

lemma kept_rotated:
  assumes "deref s p = Some img" and "next_img img' = next_img img" and "prev_img img' = prev_img img"
    and "filename img' = filename img"
  shows "kept s (set_img p img' (emit e s\<lparr>gImage := b\<rparr>))"
proof -
  have "deref (emit e s\<lparr>gImage := b\<rparr>) p = Some img" using assms(1) by simp
  then have "kept (emit e s\<lparr>gImage := b\<rparr>) (set_img p img' (emit e s\<lparr>gImage := b\<rparr>))"
    using assms(2,3,4) by (rule kept_set_img)
  moreover have "kept s (emit e s\<lparr>gImage := b\<rparr>)"
    by (rule kept_trans [OF kept_emit kept_gImage])
  ultimately show ?thesis using kept_trans by blast
qed

lemma RotateImage_kept:
  assumes "RotateImage p d s = Inr (r, s')"
  shows "kept s s'"
  using assms
  by (auto simp: RotateImage_def Let_def intro!: kept_rotated
      split: option.splits if_splits sum.splits rot_exit.splits)

lemma sar_plan_kept:
  assumes "sar_plan p d0 s = Inr (l, s1)"
  shows "kept s s1"
  using assms
  by (auto simp: sar_plan_def Let_def then_do_Inr_iff dest: LoadImageFromFile_kept
      split: option.splits if_splits)

lemma sar_reload_kept:
  assumes "sar_reload p l s = Inr (l1, s1)"
  shows "kept s s1"
proof (cases "needs_reload l")
  case False
  then show ?thesis using assms by (simp add: sar_reload_def)
next
  case True
  with assms obtain img e s2 img1 w h where img: "deref s p = Some img"
    and L: "LoadImageFromFile p (set_img p (img\<lparr>curRot := 0\<rparr>) s) = Inr (e, s2)"
    and i1: "deref s2 p = Some img1"
    and s1: "s1 = set_img p (img1\<lparr>trueWidth := w, trueHeight := h\<rparr>) s2"
    by (auto simp: sar_reload_def Let_def then_do_Inr_iff split: option.splits)
  have "kept s (set_img p (img\<lparr>curRot := 0\<rparr>) s)" using img by (rule kept_set_img) simp_all
  moreover note LoadImageFromFile_kept [OF L]
  moreover have "kept s2 s1" unfolding s1 using i1 by (rule kept_set_img) simp_all
  ultimately show ?thesis using kept_trans by blast
qed

lemma sar_rotate_first_kept:
  assumes "sar_rotate_first p l s = Inr (l1, unrot, s1)"
  shows "kept s s1"
  using assms
  by (auto simp: sar_rotate_first_def then_do_Inr_iff dest: RotateImage_kept split: if_splits)

lemma sar_scale_kept:
  assumes "sar_scale p l unrot s = Inr out"
  shows "case out of Aborted s1 \<Rightarrow> kept s s1 | Scaled l1 s1 \<Rightarrow> kept s s1"
  using assms
  by (auto simp: sar_scale_def Let_def intro: kept_trans [OF kept_emit kept_emit]
      kept_trans [OF kept_emit kept_gImage] split: option.splits if_splits)

lemma sar_finish_kept:
  assumes "sar_finish p l s = Inr s1"
  shows "kept s s1"
proof -
  from assms obtain img r s2 where img: "deref s p = Some img"
    and R: "(if l_degrees l \<noteq> 0
             then RotateImage p (l_degrees l)
                    (set_img p (img\<lparr>curWidth := l_cur_width l, curHeight := l_cur_height l\<rparr>) s)
             else Inr (0, set_img p (img\<lparr>curWidth := l_cur_width l, curHeight := l_cur_height l\<rparr>) s))
            = Inr (r, s2)"
    and s1: "s1 = emit EvPrepareWindow s2"
    by (auto simp: sar_finish_def Let_def then_do_Inr_iff split: option.splits)
  let ?s0 = "set_img p (img\<lparr>curWidth := l_cur_width l, curHeight := l_cur_height l\<rparr>) s"
  have k1: "kept s ?s0" using img by (rule kept_set_img) simp_all
  have "kept ?s0 s2" using R by (auto dest: RotateImage_kept split: if_splits)
  then show ?thesis unfolding s1 using k1 kept_emit kept_trans by blast
qed

lemma ScaleAndRotate_kept:
  assumes "ScaleAndRotate p d0 s = Inr s'"
  shows "kept s s'"
proof -
  from assms obtain l s1 l1 s2 l2 unrot s3 out where
    a: "sar_plan p d0 s = Inr (l, s1)" and b: "sar_reload p l s1 = Inr (l1, s2)"
    and c: "sar_rotate_first p l1 s2 = Inr (l2, unrot, s3)"
    and d: "sar_scale p l2 unrot s3 = Inr out"
    and e: "(case out of Aborted s4 \<Rightarrow> Inr s4 | Scaled l4 s4 \<Rightarrow> sar_finish p l4 s4) = Inr s'"
    by (auto simp: ScaleAndRotate_def sar_tail_def then_do_Inr_iff)
  have "kept s3 s'"
  proof (cases out)
    case (Aborted s4)
    then show ?thesis using sar_scale_kept [OF d] e by simp
  next
    case (Scaled l4 s4)
    then show ?thesis using sar_scale_kept [OF d] e sar_finish_kept kept_trans by auto
  qed
  with sar_plan_kept [OF a] sar_reload_kept [OF b] sar_rotate_first_kept [OF c]
  show ?thesis using kept_trans by blast
qed

lemma LoadImageAndRotate_kept:
  assumes "LoadImageAndRotate p s = Inr (e, s')"
  shows "kept s s'"
proof -
  from assms obtain img where img: "deref s p = Some img"
    by (auto simp: LoadImageAndRotate_def split: option.splits)
  let ?s0 = "set_img p (img\<lparr>trueWidth := 0, trueHeight := 0, curRot := 0\<rparr>) s"
  from assms img obtain e1 s1 where L: "LoadImageFromFile p ?s0 = Inr (e1, s1)"
    and rest: "(if e1 \<noteq> 0 then Inr (e1, s1)
                else case deref s1 p of
                       None \<Rightarrow> Inl BadPointer
                     | Some img1 \<Rightarrow>
                         then_do (ScaleAndRotate (gCurImage s1)
                                    (if trueWidth img = 0 \<and> exifRot img1 \<noteq> 0 then exifRot img1
                                     else curRot img) s1)
                           (\<lambda>s2. Inr (0, s2))) = Inr (e, s')"
    by (auto simp: LoadImageAndRotate_def Let_def then_do_Inr_iff)
  have "kept s ?s0" using img by (rule kept_set_img) simp_all
  then have k: "kept s s1" using LoadImageFromFile_kept [OF L] kept_trans by blast
  show ?thesis
  proof (cases "e1 \<noteq> 0")
    case True
    then show ?thesis using rest k by simp
  next
    case False
    with rest obtain d where "ScaleAndRotate (gCurImage s1) d s1 = Inr s'"
      by (auto simp: then_do_Inr_iff split: option.splits)
    then show ?thesis using k ScaleAndRotate_kept kept_trans by blast
  qed
qed

text \<open>ShowImage keeps the list; it leaves the timer alone or arms one timeout.\<close>

definition armed :: "state \<Rightarrow> state \<Rightarrow> bool" where
  "armed s s' \<longleftrightarrow>
     gFirstImage s' = gFirstImage s \<and> gCurImage s' = gCurImage s \<and> links_of s' = links_of s \<and>
     names_of s' = names_of s \<and> files s' = files s \<and>
     gDelaySeconds s' = gDelaySeconds s \<and>
     timeouts s' = timeouts s @ [(int (Suc (last_source_id s)), gDelaySeconds s * 1000)] \<and>
     gPendingTimeout s' = int (Suc (last_source_id s)) \<and>
     last_source_id s' = Suc (last_source_id s)"

lemma ShowImage_Inr:
  assumes "ShowImage s = Inr (r, s')"
  shows "\<exists>s1 cur. ScaleAndRotate (gCurImage s) 0 s = Inr s1 \<and> kept s s1 \<and>
           (if 0 < gDelaySeconds s \<and> gPendingTimeout s = 0
            then deref s1 (gCurImage s) = Some cur \<and>
                 (if next_img cur \<noteq> 0 \<or> next_img cur \<noteq> gFirstImage s
                  then armed s1 s' else s' = s1)
            else s' = s1)"
proof -
  from assms obtain s1 where S: "ScaleAndRotate (gCurImage s) 0 s = Inr s1"
    and rest: "(if 0 < gDelaySeconds s1 \<and> gPendingTimeout s1 = 0 then
         case deref s1 (gCurImage s1) of
           None \<Rightarrow> Inl BadPointer
         | Some cur \<Rightarrow>
             if next_img cur \<noteq> 0 \<or> next_img cur \<noteq> gFirstImage s1 then
               if in_int (gDelaySeconds s1 * 1000) then
                 (case g_timeout_add (gDelaySeconds s1 * 1000) s1 of
                    (sid, s2) \<Rightarrow> Inr (0, s2\<lparr>gPendingTimeout := sid\<rparr>))
               else Inl IntOverflow
             else Inr (0, s1)
       else Inr (0, s1)) = Inr (r, s')"
    by (auto simp: ShowImage_def then_do_Inr_iff)
  note k = ScaleAndRotate_kept [OF S]
  then have f: "gDelaySeconds s1 = gDelaySeconds s" "gPendingTimeout s1 = gPendingTimeout s"
    "gCurImage s1 = gCurImage s" "gFirstImage s1 = gFirstImage s"
    by (simp_all add: kept_def)
  show ?thesis
  proof (cases "0 < gDelaySeconds s \<and> gPendingTimeout s = 0")
    case False
    then show ?thesis using S k rest f by auto
  next
    case True
    with rest f obtain cur where cur: "deref s1 (gCurImage s) = Some cur"
      by (auto split: option.splits)
    show ?thesis
    proof (cases "next_img cur \<noteq> 0 \<or> next_img cur \<noteq> gFirstImage s")
      case False
      then show ?thesis using S k rest f True cur by auto
    next
      case c: True
      have "armed s1 s'"
        using rest f True cur c
        by (auto simp: g_timeout_add_def Let_def armed_def emit_def links_of_def names_of_def
            deref_def fun_eq_iff split: if_splits)
      then show ?thesis using S k True cur c by auto
    qed
  qed
qed

subsection \<open>The quarter turn at an unchanged size\<close>

text \<open>
  At full size, for an image whose record holds its true size, a turn by 90 or 270 degrees
  needs no reload and no scaling. Lines 245-247 have swapped the working copies of the
  current size, lines 432-433 store them into the record, and line 436 calls
  \<open>RotateImage\<close> with that record and the buffer as it was.
\<close>

lemma ScaleAndRotate_quarter_fullsize:
  assumes "gScaleMode s = PHO_SCALE_FULLSIZE" and "deref s p = Some img"
    and "trueWidth img \<noteq> 0" and "trueHeight img \<noteq> 0"
    and "trueWidth img = curWidth img" and "trueHeight img = curHeight img"
    and d: "d = 90 \<or> d = 270"
  shows "ScaleAndRotate p d s =
           then_do (RotateImage p d
                      (set_img p (img\<lparr>curWidth := curHeight img, curHeight := curWidth img\<rparr>) s))
             (\<lambda>(r, s2). Inr (emit EvPrepareWindow s2))"
proof -
  let ?l = "\<lparr>l_degrees = d, l_aspect_changing = True,
             l_true_width = curHeight img, l_true_height = curWidth img,
             l_cur_width = curHeight img, l_cur_height = curWidth img,
             l_new_width = curHeight img, l_new_height = curWidth img\<rparr>"
  have dg: "c_mod (d + 360) 360 = d" "c_mod d 180 \<noteq> 0" "d \<noteq> 0"
    using d by (auto simp: c_mod_def c_div_def)
  have plan: "sar_plan p d s = Inr (?l, s)"
    using assms(1-6) dg by (simp add: sar_plan_def target_size_def Let_def)
  have reload: "sar_reload p ?l s = Inr (?l, s)"
    by (simp add: sar_reload_def needs_reload_def)
  have rot: "sar_rotate_first p ?l s = Inr (?l, (curWidth img, curHeight img), s)"
    by (simp add: sar_rotate_first_def rotates_first_def)
  have scale: "sar_scale p ?l (curWidth img, curHeight img) s = Inr (Scaled ?l s)"
    using assms(2) by (simp add: sar_scale_def)
  have fin: "sar_finish p ?l s =
      then_do (RotateImage p d
                 (set_img p (img\<lparr>curWidth := curHeight img, curHeight := curWidth img\<rparr>) s))
        (\<lambda>(r, s2). Inr (emit EvPrepareWindow s2))"
    using assms(2) dg(3) by (simp add: sar_finish_def)
  show ?thesis
    by (simp add: ScaleAndRotate_def sar_tail_def plan reload rot scale fin)
qed

lemma landscape_loops:
  "rotate_pixels 90 1 2 3 8 8 [1, 2, 3, 4, 5, 6, 0, 0] [0, 0, 0, 0, 0, 0, 0, 0] = Inl MemFault"
  by code_simp

lemma portrait_loops:
  "rotate_pixels 90 2 1 3 4 4 [1, 2, 3, 0, 4, 5, 6, 0] [0, 0, 0, 0, 0, 0, 0, 0] =
   Inr [1, 2, 3, 0, 0, 4, 5, 0]"
  by code_simp

lemma fresh_eight: "map (\<lambda>n. 0::guchar) [0..<8] = [0, 0, 0, 0, 0, 0, 0, 0]"
  by code_simp

text \<open>The 2 by 1 image: the loops run over 1 by 2 pixels and leave the one row of the buffer.\<close>

lemma RotateImage_landscape:
  "RotateImage 16 90 (set_img 16 (img_a\<lparr>curWidth := 1, curHeight := 2\<rparr>) st_a) = Inl OutOfBounds"
proof -
  let ?s = "emit (EvRotate 90) (set_img 16 (img_a\<lparr>curWidth := 1, curHeight := 2\<rparr>) st_a)"
  have g: "gImage ?s = Some buf_a" by (simp add: emit_def set_img_def st_a_def)
  have d: "deref ?s 16 = Some (img_a\<lparr>curWidth := 1, curHeight := 2\<rparr>)"
    by (simp add: deref_set_img)
  have n: "gdk_pixbuf_new ?s False 8 2 1 =
      Some \<lparr>width = 2, height = 1, rowstride = 8, n_channels = 3, has_alpha = False,
            bits_per_sample = 8, pixels = [0, 0, 0, 0, 0, 0, 0, 0]\<rparr>"
    by (simp add: gdk_pixbuf_new_def emit_def set_img_def st_a_def fresh_eight)
  have c: "c_mod (90 + 360) 360 = 90" by (simp add: c_mod_def c_div_def)
  show ?thesis
    unfolding RotateImage_def Let_def g d c
    by (simp add: in_int_def buf_a_def n [unfolded g] landscape_loops)
qed

text \<open>
  The 1 by 2 image: the loops run over 2 by 1 pixels, the new buffer is 1 by 2 again, and
  its second pixel is made of the padding byte of the first row and two samples of the
  second.
\<close>

lemma RotateImage_portrait:
  "RotateImage 16 90 (set_img 16 (img_p\<lparr>curWidth := 2, curHeight := 1\<rparr>) st_p) =
     Inr (0, set_img 16 (img_p\<lparr>curWidth := 1, curHeight := 2, trueWidth := 2, trueHeight := 1, curRot := 90\<rparr>)
               (emit (EvRotate 90) (set_img 16 (img_p\<lparr>curWidth := 2, curHeight := 1\<rparr>) st_p)
                  \<lparr>gImage := Some (buf_p\<lparr>pixels := [1, 2, 3, 0, 0, 4, 5, 0]\<rparr>)\<rparr>))"
proof -
  let ?s = "emit (EvRotate 90) (set_img 16 (img_p\<lparr>curWidth := 2, curHeight := 1\<rparr>) st_p)"
  have g: "gImage ?s = Some buf_p" by (simp add: emit_def set_img_def st_p_def)
  have d: "deref ?s 16 = Some (img_p\<lparr>curWidth := 2, curHeight := 1\<rparr>)"
    by (simp add: deref_set_img)
  have n: "gdk_pixbuf_new ?s False 8 1 2 =
      Some \<lparr>width = 1, height = 2, rowstride = 4, n_channels = 3, has_alpha = False,
            bits_per_sample = 8, pixels = [0, 0, 0, 0, 0, 0, 0, 0]\<rparr>"
    by (simp add: gdk_pixbuf_new_def emit_def set_img_def st_p_def st_a_def fresh_eight)
  have c: "c_mod (90 + 360) 360 = 90" by (simp add: c_mod_def c_div_def)
  have c450: "c_mod 450 360 = 90" by (simp add: c_mod_def c_div_def)
  have f: "curRot img_p = 0" "trueWidth img_p = 1" "trueHeight img_p = 2"
    by (simp_all add: img_p_def)
  show ?thesis
    unfolding RotateImage_def Let_def g d c
    by (simp add: in_int_def buf_p_def n [unfolded g] portrait_loops f c450)
qed

lemma quarter_turn_landscape:
  "ScaleAndRotate 16 90 st_a =
     then_do (RotateImage 16 90 (set_img 16 (img_a\<lparr>curWidth := 1, curHeight := 2\<rparr>) st_a))
       (\<lambda>(r, s2). Inr (emit EvPrepareWindow s2))"
proof -
  have "ScaleAndRotate 16 90 st_a =
     then_do (RotateImage 16 90
                (set_img 16 (img_a\<lparr>curWidth := curHeight img_a, curHeight := curWidth img_a\<rparr>) st_a))
       (\<lambda>(r, s2). Inr (emit EvPrepareWindow s2))"
    by (rule ScaleAndRotate_quarter_fullsize) (simp_all add: st_a_def img_a_def deref_def)
  then show ?thesis by (simp add: img_a_def)
qed

lemma quarter_turn_portrait:
  "ScaleAndRotate 16 90 st_p =
     then_do (RotateImage 16 90 (set_img 16 (img_p\<lparr>curWidth := 2, curHeight := 1\<rparr>) st_p))
       (\<lambda>(r, s2). Inr (emit EvPrepareWindow s2))"
proof -
  have "ScaleAndRotate 16 90 st_p =
     then_do (RotateImage 16 90
                (set_img 16 (img_p\<lparr>curWidth := curHeight img_p, curHeight := curWidth img_p\<rparr>) st_p))
       (\<lambda>(r, s2). Inr (emit EvPrepareWindow s2))"
    by (rule ScaleAndRotate_quarter_fullsize) (simp_all add: st_p_def st_a_def img_p_def deref_def)
  then show ?thesis by (simp add: img_p_def)
qed

text \<open>
  Claim C2, the branch "otherwise ... the rotation, if nonzero, is applied afterwards", on the
  1 by 2 image \<open>buf_p\<close> shown at full size and turned by 90 degrees. Nothing is scaled,
  \<open>RotateImage\<close> is called, and the call returns: but the buffer it leaves is 1 by 2 as
  before, with the first pixel in its place and the second one damaged, and the record says
  \<open>curRot = 90\<close>. The rotation was not applied.
\<close>

theorem C2_quarter_turn_not_applied:
  "gImage st_p = Some buf_p \<and> width buf_p = 1 \<and> height buf_p = 2 \<and>
   pixels buf_p = [1, 2, 3, 0, 4, 5, 6, 0] \<and>
   (\<exists>s' img'. ScaleAndRotate 16 90 st_p = Inr s' \<and>
      events s' = [EvRotate 90, EvPrepareWindow] \<and>
      gImage s' = Some (buf_p\<lparr>pixels := [1, 2, 3, 0, 0, 4, 5, 0]\<rparr>) \<and>
      deref s' 16 = Some img' \<and> curRot img' = 90 \<and> curWidth img' = 1 \<and> curHeight img' = 2)"
proof -
  let ?s' = "emit EvPrepareWindow
      (set_img 16 (img_p\<lparr>curWidth := 1, curHeight := 2, trueWidth := 2, trueHeight := 1, curRot := 90\<rparr>)
         (emit (EvRotate 90) (set_img 16 (img_p\<lparr>curWidth := 2, curHeight := 1\<rparr>) st_p)
            \<lparr>gImage := Some (buf_p\<lparr>pixels := [1, 2, 3, 0, 0, 4, 5, 0]\<rparr>)\<rparr>))"
  have run: "ScaleAndRotate 16 90 st_p = Inr ?s'"
    unfolding quarter_turn_portrait RotateImage_portrait by simp
  have e: "events ?s' = [EvRotate 90, EvPrepareWindow]"
    by (simp add: emit_def set_img_def st_p_def st_a_def)
  have g: "gImage ?s' = Some (buf_p\<lparr>pixels := [1, 2, 3, 0, 0, 4, 5, 0]\<rparr>)"
    by (simp add: emit_def set_img_def)
  have d: "deref ?s' 16 = Some (img_p\<lparr>curWidth := 1, curHeight := 2, trueWidth := 2, trueHeight := 1, curRot := 90\<rparr>)"
    by (simp add: deref_set_img)
  have "gImage st_p = Some buf_p" by (simp add: st_p_def)
  then show ?thesis
    using run e g d by (simp add: buf_p_def img_p_def)
qed

text \<open>
  Claim C4, on the two calls of \<open>RotateImage\<close> that \<open>ScaleAndRotate\<close> makes for a turn by 90
  degrees of an image shown at full size. For the 2 by 1 image \<open>buf_a\<close> the record says 1
  by 2 when \<open>RotateImage\<close> runs, and the copy reads past the end of the buffer. For the 1
  by 2 image \<open>buf_p\<close> the record says 2 by 1; the new buffer has width 1 and height 2, not
  the old height as width and the old width as height, and the source pixel \<open>(0, 1)\<close>, the
  samples 4, 5, 6, is not at \<open>(oldHeight - y - 1, x) = (0, 0)\<close>, where 1, 2, 3 stand.
\<close>

theorem C4_RotateImage_swapped_record:
  "ScaleAndRotate 16 90 st_a =
     then_do (RotateImage 16 90 (set_img 16 (img_a\<lparr>curWidth := 1, curHeight := 2\<rparr>) st_a))
       (\<lambda>(r, s2). Inr (emit EvPrepareWindow s2)) \<and>
   gImage (set_img 16 (img_a\<lparr>curWidth := 1, curHeight := 2\<rparr>) st_a) = Some buf_a \<and>
   width buf_a = 2 \<and> height buf_a = 1 \<and>
   RotateImage 16 90 (set_img 16 (img_a\<lparr>curWidth := 1, curHeight := 2\<rparr>) st_a) = Inl OutOfBounds \<and>
   ScaleAndRotate 16 90 st_p =
     then_do (RotateImage 16 90 (set_img 16 (img_p\<lparr>curWidth := 2, curHeight := 1\<rparr>) st_p))
       (\<lambda>(r, s2). Inr (emit EvPrepareWindow s2)) \<and>
   gImage (set_img 16 (img_p\<lparr>curWidth := 2, curHeight := 1\<rparr>) st_p) = Some buf_p \<and>
   width buf_p = 1 \<and> height buf_p = 2 \<and> get_pixel buf_p 0 1 0 = 4 \<and>
   (\<exists>s' nb. RotateImage 16 90 (set_img 16 (img_p\<lparr>curWidth := 2, curHeight := 1\<rparr>) st_p) = Inr (0, s') \<and>
      gImage s' = Some nb \<and> width nb = 1 \<and> height nb = 2 \<and> get_pixel nb 0 0 0 = 1)"
proof -
  let ?nb = "buf_p\<lparr>pixels := [1, 2, 3, 0, 0, 4, 5, 0]\<rparr>"
  have a: "gImage (set_img 16 (img_a\<lparr>curWidth := 1, curHeight := 2\<rparr>) st_a) = Some buf_a"
    "width buf_a = 2" "height buf_a = 1"
    by (simp_all add: set_img_def st_a_def buf_a_def)
  have p: "gImage (set_img 16 (img_p\<lparr>curWidth := 2, curHeight := 1\<rparr>) st_p) = Some buf_p"
    "width buf_p = 1" "height buf_p = 2" "get_pixel buf_p 0 1 0 = 4"
    by (simp_all add: set_img_def st_p_def buf_p_def get_pixel_def pixel_index_def)
  have n: "width ?nb = 1" "height ?nb = 2" "get_pixel ?nb 0 0 0 = 1"
    by (simp_all add: buf_p_def get_pixel_def pixel_index_def)
  have "\<exists>s' nb. RotateImage 16 90 (set_img 16 (img_p\<lparr>curWidth := 2, curHeight := 1\<rparr>) st_p) = Inr (0, s') \<and>
      gImage s' = Some nb \<and> width nb = 1 \<and> height nb = 2 \<and> get_pixel nb 0 0 0 = 1"
    unfolding RotateImage_portrait using n by (simp add: set_img_def)
  then show ?thesis
    using quarter_turn_landscape quarter_turn_portrait RotateImage_landscape a p by simp
qed

text \<open>
  Claim C5, the pair of 90 and 270 degrees, for images shown at full size. For the 2 by 1
  image the turn by 90 degrees reads past the end of the buffer. For the 1 by 2 image
  \<open>buf_p\<close> the turn by 90 degrees leaves a 1 by 2 buffer and a record whose true size is
  swapped; the turn by 270 degrees that follows rotates that buffer, and the function ends
  with a buffer of 2 by 1 pixels: not the original.
\<close>

theorem C5_round_trip_fails:
  "then_do (ScaleAndRotate 16 90 st_a) (ScaleAndRotate 16 270) = Inl OutOfBounds \<and>
   gImage st_p = Some buf_p \<and> width buf_p = 1 \<and> height buf_p = 2 \<and>
   (\<exists>s1 s2 nb. ScaleAndRotate 16 90 st_p = Inr s1 \<and> ScaleAndRotate 16 270 s1 = Inr s2 \<and>
      gImage s2 = Some nb \<and> width nb = 2 \<and> height nb = 1)"
proof -
  have a: "then_do (ScaleAndRotate 16 90 st_a) (ScaleAndRotate 16 270) = Inl OutOfBounds"
    unfolding quarter_turn_landscape RotateImage_landscape by simp
  let ?q = "img_p\<lparr>curWidth := 1, curHeight := 2, trueWidth := 2, trueHeight := 1, curRot := 90\<rparr>"
  let ?b = "buf_p\<lparr>pixels := [1, 2, 3, 0, 0, 4, 5, 0]\<rparr>"
  let ?s1 = "emit EvPrepareWindow
      (set_img 16 ?q
         (emit (EvRotate 90) (set_img 16 (img_p\<lparr>curWidth := 2, curHeight := 1\<rparr>) st_p)
            \<lparr>gImage := Some ?b\<rparr>))"
  have run1: "ScaleAndRotate 16 90 st_p = Inr ?s1"
    unfolding quarter_turn_portrait RotateImage_portrait by simp
  have d1: "deref ?s1 16 = Some ?q" by (simp add: deref_set_img)
  have g1: "gImage ?s1 = Some ?b" by (simp add: emit_def set_img_def)
  have m1: "gScaleMode ?s1 = PHO_SCALE_FULLSIZE" "alloc_ok ?s1 2 1"
    "scale_simple ?s1 = (\<lambda>pb w h. None)"
    by (simp_all add: emit_def set_img_def st_p_def st_a_def)
  let ?l = "\<lparr>l_degrees = 270, l_aspect_changing = True, l_true_width = 1, l_true_height = 2,
             l_cur_width = 2, l_cur_height = 1, l_new_width = 1, l_new_height = 2\<rparr>"
  have c: "c_mod (270 + 360) 360 = 270" "c_mod 270 180 \<noteq> 0"
    by (simp_all add: c_mod_def c_div_def)
  have plan: "sar_plan 16 270 ?s1 = Inr (?l, ?s1)"
    unfolding sar_plan_def d1 using m1(1) c
    by (simp add: target_size_def Let_def img_p_def)
  have reload: "sar_reload 16 ?l ?s1 = Inr (?l, ?s1)"
    by (simp add: sar_reload_def needs_reload_def)
  have wf: "wf_pixbuf ?b" by (simp add: wf_pixbuf_def buf_p_def)
  have dims: "curWidth ?q = width ?b" "curHeight ?q = height ?b" by (simp_all add: buf_p_def)
  have al: "alloc_ok ?s1 (if (270::int) = 180 then width ?b else height ?b)
      (if (270::int) = 180 then height ?b else width ?b)"
    using m1(2) by (simp add: buf_p_def)
  have f: "fits ?b" by (simp add: fits_def buf_p_def)
  have rt: "0 \<le> curRot ?q" "curRot ?q < 360" by simp_all
  from RotateImage_correct [of 270, OF _ d1 g1 wf dims al f rt]
  obtain nb where r: "RotateImage 16 270 ?s1 = Inr (0, set_img 16
        (?q\<lparr>curWidth := width nb, curHeight := height nb,
             trueWidth := (if (270::int) = 180 then trueWidth ?q else trueHeight ?q),
             trueHeight := (if (270::int) = 180 then trueHeight ?q else trueWidth ?q),
             curRot := c_mod (curRot ?q + 270 + 360) 360\<rparr>)
        (emit (EvRotate 270) ?s1\<lparr>gImage := Some nb\<rparr>))"
    and w: "width nb = (if (270::int) = 180 then width ?b else height ?b)"
      "height nb = (if (270::int) = 180 then height ?b else width ?b)"
    by blast
  let ?q2 = "?q\<lparr>curWidth := width nb, curHeight := height nb,
             trueWidth := (if (270::int) = 180 then trueWidth ?q else trueHeight ?q),
             trueHeight := (if (270::int) = 180 then trueHeight ?q else trueWidth ?q),
             curRot := c_mod (curRot ?q + 270 + 360) 360\<rparr>"
  let ?s2 = "set_img 16 ?q2 (emit (EvRotate 270) ?s1\<lparr>gImage := Some nb\<rparr>)"
  have w2: "width nb = 2" "height nb = 1" using w by (simp_all add: buf_p_def)
  let ?l1 = "?l\<lparr>l_degrees := 0\<rparr>"
  have rf: "sar_rotate_first 16 ?l ?s1 = Inr (?l1, (1, 2), ?s2)"
    by (simp add: sar_rotate_first_def rotates_first_def r)
  have d2: "deref ?s2 16 = Some ?q2" by (simp add: deref_set_img)
  have ne: "fst (1::int, 2::int) \<noteq> curWidth ?q2 \<or> snd (1::int, 2::int) \<noteq> curHeight ?q2"
    using w2 by simp
  have sf: "case gImage ?s2 of None \<Rightarrow> True
         | Some pb \<Rightarrow> (case scale_simple ?s2 pb (fst (1::int, 2::int)) (snd (1::int, 2::int)) of
                        None \<Rightarrow> True | Some nb \<Rightarrow> width nb < 1)"
    by (simp add: set_img_def emit_def st_p_def st_a_def)
  note sc = sar_scale_fail [OF d2 ne sf, of ?l1]
  let ?s3 = "emit (EvPrompt scale_failure_message)
               (emit (EvScale (fst (1::int, 2::int)) (snd (1::int, 2::int))) ?s2)"
  have run2: "ScaleAndRotate 16 270 ?s1 = Inr ?s3"
    unfolding ScaleAndRotate_def plan then_do_simps prod.case reload sar_tail_def rf sc
      sar_outcome.case by (rule refl)
  have g3: "gImage ?s3 = Some nb" by (simp add: emit_def set_img_def)
  have p: "gImage st_p = Some buf_p" "width buf_p = 1" "height buf_p = 2"
    by (simp_all add: st_p_def buf_p_def)
  have "\<exists>s1 s2 nb. ScaleAndRotate 16 90 st_p = Inr s1 \<and> ScaleAndRotate 16 270 s1 = Inr s2 \<and>
      gImage s2 = Some nb \<and> width nb = 2 \<and> height nb = 1"
    apply (rule exI [of _ ?s1], rule exI [of _ ?s3], rule exI [of _ nb])
    using run1 run2 g3 w2 by simp
  then show ?thesis using a p by simp
qed

subsection \<open>The slideshow timer\<close>

text \<open>An image that is shown at its full size, and is, goes through ScaleAndRotate untouched.\<close>

lemma ScaleAndRotate_idle:
  assumes "gScaleMode s = PHO_SCALE_FULLSIZE" and "deref s p = Some img"
    and "trueWidth img \<noteq> 0" and "trueHeight img \<noteq> 0"
    and "trueWidth img = curWidth img" and "trueHeight img = curHeight img"
  shows "ScaleAndRotate p 0 s = Inr (emit EvPrepareWindow (set_img p img s))"
proof -
  let ?l = "\<lparr>l_degrees = 0, l_aspect_changing = False,
             l_true_width = curWidth img, l_true_height = curHeight img,
             l_cur_width = curWidth img, l_cur_height = curHeight img,
             l_new_width = curWidth img, l_new_height = curHeight img\<rparr>"
  have plan: "sar_plan p 0 s = Inr (?l, s)"
    using assms by (simp add: sar_plan_def target_size_def c_mod_def c_div_def Let_def)
  have reload: "sar_reload p ?l s = Inr (?l, s)"
    by (simp add: sar_reload_def needs_reload_def)
  have rot: "sar_rotate_first p ?l s = Inr (?l, (curWidth img, curHeight img), s)"
    by (simp add: sar_rotate_first_def rotates_first_def)
  have scale: "sar_scale p ?l (curWidth img, curHeight img) s = Inr (Scaled ?l s)"
    using assms(2) by (simp add: sar_scale_def)
  have fin: "sar_finish p ?l s = Inr (emit EvPrepareWindow (set_img p img s))"
    using sar_finish_norot [OF assms(2), of ?l] by simp
  show ?thesis
    by (simp add: ScaleAndRotate_def sar_tail_def plan reload rot scale fin)
qed

lemma ScaleAndRotate_st_a:
  assumes "gScaleMode s = PHO_SCALE_FULLSIZE" and "deref s 16 = Some img_a"
  shows "ScaleAndRotate 16 0 s = Inr (emit EvPrepareWindow (set_img 16 img_a s))"
  using assms by (rule ScaleAndRotate_idle) (simp_all add: img_a_def)

text \<open>With a positive delay, no pending timeout and a list that is not empty, ShowImage arms
  a timeout, whatever the length of the list: one of the two disjuncts of line 59 holds as
  soon as the anchor is not null.\<close>

lemma ShowImage_arms:
  assumes "ShowImage s = Inr (r, s')" and "0 < gDelaySeconds s" and "gPendingTimeout s = 0"
    and "gFirstImage s \<noteq> 0"
  shows "timeouts s' = timeouts s @ [(int (Suc (last_source_id s)), gDelaySeconds s * 1000)] \<and>
         gPendingTimeout s' = int (Suc (last_source_id s))"
proof -
  from ShowImage_Inr [OF assms(1)] obtain s1 cur where
    k: "kept s s1" and c: "if 0 < gDelaySeconds s \<and> gPendingTimeout s = 0
            then deref s1 (gCurImage s) = Some cur \<and>
                 (if next_img cur \<noteq> 0 \<or> next_img cur \<noteq> gFirstImage s
                  then armed s1 s' else s' = s1)
            else s' = s1"
    by blast
  have "next_img cur \<noteq> 0 \<or> next_img cur \<noteq> gFirstImage s" using assms(4) by auto
  with c assms(2,3) have "armed s1 s'" by (auto split: if_splits)
  then show ?thesis using k by (simp add: armed_def kept_def)
qed

text \<open>
  Claim C9, the case of a list of one record. In the state \<open>st_a\<close> the list has the one
  record at address 16, which is the anchor and the cursor and its own successor; with a delay
  of five seconds and no timeout pending, ShowImage arms a timeout of 5000 ms. The test of
  line 59 has \<open>||\<close> between \<open>next != 0\<close> and \<open>next != gFirstImage\<close>, and the first disjunct
  holds.
\<close>

theorem C9_single_record_timer_armed:
  "gFirstImage st_a = 16 \<and> gCurImage st_a = 16 \<and> links_of st_a 16 = Some (16, 16) \<and>
   gPendingTimeout st_a = 0 \<and> timeouts st_a = [] \<and>
   (\<exists>s'. ShowImage (st_a\<lparr>gDelaySeconds := 5\<rparr>) = Inr (0, s') \<and>
         gPendingTimeout s' = 1 \<and> timeouts s' = [(1, 5000)])"
proof -
  have d: "deref (st_a\<lparr>gDelaySeconds := 5\<rparr>) 16 = Some img_a"
    by (simp add: st_a_def deref_def)
  have m: "gScaleMode (st_a\<lparr>gDelaySeconds := 5\<rparr>) = PHO_SCALE_FULLSIZE"
    by (simp add: st_a_def)
  have c: "gCurImage (st_a\<lparr>gDelaySeconds := 5\<rparr>) = 16" by (simp add: st_a_def)
  note S = ScaleAndRotate_st_a [OF m d]
  have "\<exists>s'. ShowImage (st_a\<lparr>gDelaySeconds := 5\<rparr>) = Inr (0, s') \<and>
         gPendingTimeout s' = 1 \<and> timeouts s' = [(1, 5000)]"
    unfolding ShowImage_def c S then_do_simps
    by (simp add: st_a_def img_a_def emit_def set_img_def deref_def g_timeout_add_def in_int_def)
  moreover have "links_of st_a 16 = Some (16, 16)"
    by (simp add: links_of_def st_a_def img_a_def deref_def)
  ultimately show ?thesis by (simp add: st_a_def)
qed

theorem C9_single_record_timer_armed_witness:
  "\<exists>s'. ShowImage (st_a\<lparr>gDelaySeconds := 5\<rparr>) = Inr (0, s') \<and> timeouts s' = [(1, 5000)]"
  using C9_single_record_timer_armed by blast

text \<open>
  A state is stuck when its pending-timeout flag is set while no timeout is armed.
\<close>

definition stuck :: "int \<Rightarrow> state \<Rightarrow> bool" where
  "stuck v s \<longleftrightarrow> v \<noteq> 0 \<and> gPendingTimeout s = v \<and> timeouts s = []"

lemma kept_stuck: "kept s s' \<Longrightarrow> stuck v s \<Longrightarrow> stuck v s'"
  by (simp add: kept_def stuck_def)

lemma ShowImage_stuck:
  assumes "ShowImage s = Inr (r, s')" and "stuck v s"
  shows "stuck v s'"
proof -
  from ShowImage_Inr [OF assms(1)] obtain s1 where "kept s s1" "s' = s1"
    using assms(2) by (auto simp: stuck_def)
  then show ?thesis using assms(2) kept_stuck by blast
qed

lemma next_cursor_stuck:
  assumes "next_cursor s = Inr (Some s1)" and "stuck v s"
  shows "stuck v s1"
  using assms by (auto simp: next_cursor_def stuck_def split: if_splits option.splits)

lemma prev_cursor_stuck:
  assumes "prev_cursor s = Inr (Some s1)" and "stuck v s"
  shows "stuck v s1"
  using assms by (auto simp: prev_cursor_def stuck_def split: if_splits option.splits)

lemma NextImage_stuck:
  assumes "NextImage fuel s = Inr (r, s')" and "stuck v s"
  shows "stuck v s'"
  using assms
proof (induction fuel arbitrary: s)
  case 0
  then show ?case by simp
next
  case (Suc n)
  show ?case
  proof (cases "next_cursor s")
    case (Inl f)
    then show ?thesis using Suc.prems by simp
  next
    case (Inr o1)
    show ?thesis
    proof (cases o1)
      case None
      then show ?thesis using Suc.prems Inr by simp
    next
      case (Some s1)
      have st1: "stuck v s1" using next_cursor_stuck Inr Some Suc.prems(2) by blast
      from Suc.prems(1) Inr Some obtain e s2 where
        L: "LoadImageAndRotate (gCurImage s1) s1 = Inr (e, s2)"
        and rest: "(if e \<noteq> 0 then NextImage n s2
                    else (case ShowImage s2 of Inl f \<Rightarrow> Inl f | Inr (r, s3) \<Rightarrow> Inr (0, s3)))
                   = Inr (r, s')"
        by (auto split: sum.splits)
      have st2: "stuck v s2" using kept_stuck [OF LoadImageAndRotate_kept [OF L] st1] .
      show ?thesis
      proof (cases "e \<noteq> 0")
        case True
        then show ?thesis using rest Suc.IH st2 by simp
      next
        case False
        with rest obtain r3 where "ShowImage s2 = Inr (r3, s')" by (auto split: sum.splits)
        then show ?thesis using ShowImage_stuck st2 by blast
      qed
    qed
  qed
qed

lemma PrevImage_stuck:
  assumes "PrevImage fuel s = Inr (r, s')" and "stuck v s"
  shows "stuck v s'"
  using assms
proof (induction fuel arbitrary: s)
  case 0
  then show ?case by simp
next
  case (Suc n)
  show ?case
  proof (cases "prev_cursor s")
    case (Inl f)
    then show ?thesis using Suc.prems by simp
  next
    case (Inr o1)
    show ?thesis
    proof (cases o1)
      case None
      then show ?thesis using Suc.prems Inr by simp
    next
      case (Some s1)
      have st1: "stuck v s1" using prev_cursor_stuck Inr Some Suc.prems(2) by blast
      from Suc.prems(1) Inr Some obtain e s2 where
        L: "LoadImageAndRotate (gCurImage s1) s1 = Inr (e, s2)"
        and rest: "(if e \<noteq> 0 then PrevImage n s2
                    else (case ShowImage s2 of Inl f \<Rightarrow> Inl f | Inr (r, s3) \<Rightarrow> Inr (0, s3)))
                   = Inr (r, s')"
        by (auto split: sum.splits)
      have st2: "stuck v s2" using kept_stuck [OF LoadImageAndRotate_kept [OF L] st1] .
      show ?thesis
      proof (cases "e \<noteq> 0")
        case True
        then show ?thesis using rest Suc.IH st2 by simp
      next
        case False
        with rest obtain r3 where "ShowImage s2 = Inr (r3, s')" by (auto split: sum.splits)
        then show ?thesis using ShowImage_stuck st2 by blast
      qed
    qed
  qed
qed

lemma ThisImage_stuck:
  assumes "ThisImage fuel s = Inr (r, s')" and "stuck v s"
  shows "stuck v s'"
proof -
  from assms(1) obtain e s1 where L: "LoadImageAndRotate (gCurImage s) s = Inr (e, s1)"
    and rest: "(if e \<noteq> 0 then NextImage fuel s1
                else then_do (ShowImage s1) (\<lambda>(r, s2). Inr (0, s2))) = Inr (r, s')"
    by (auto simp: ThisImage_def then_do_Inr_iff)
  have st1: "stuck v s1" using kept_stuck [OF LoadImageAndRotate_kept [OF L] assms(2)] .
  show ?thesis
  proof (cases "e \<noteq> 0")
    case True
    then show ?thesis using rest NextImage_stuck st1 by simp
  next
    case False
    with rest obtain r3 where "ShowImage s1 = Inr (r3, s')" by (auto simp: then_do_Inr_iff)
    then show ?thesis using ShowImage_stuck st1 by blast
  qed
qed

lemma store_timer:
  assumes "store p f s = Inr s'"
  shows "gPendingTimeout s' = gPendingTimeout s \<and> timeouts s' = timeouts s"
  using assms by (auto simp: store_def set_img_def split: option.splits)

lemma disconnect_timer:
  assumes "disconnect p s = Inr s'"
  shows "gPendingTimeout s' = gPendingTimeout s \<and> timeouts s' = timeouts s"
  using assms
  by (auto simp: disconnect_def Let_def then_do_Inr_iff emit_def
      dest!: store_timer split: if_splits)

lemma delete_record_stuck:
  assumes "delete_record p s = Inr (Some s')" and "stuck v s"
  shows "stuck v s'"
  using assms
  by (auto simp: delete_record_def then_do_Inr_iff FreePhoImage_def emit_def stuck_def
      dest!: disconnect_timer split: if_splits)

lemma ReallyDelete_stuck:
  assumes "ReallyDelete fuel p s = Inr s'" and "stuck v s"
  shows "stuck v s'"
proof -
  from assms(1) obtain o1 where D: "delete_record p s = Inr o1"
    and rest: "(case o1 of None \<Rightarrow> Inr s
                | Some s1 \<Rightarrow> then_do (ThisImage fuel s1) (\<lambda>(e, s2). Inr s2)) = Inr s'"
    by (auto simp: ReallyDelete_def then_do_Inr_iff)
  show ?thesis
  proof (cases o1)
    case None
    then show ?thesis using rest assms(2) by simp
  next
    case (Some s1)
    then have "stuck v s1" using delete_record_stuck D assms(2) by blast
    moreover from rest Some obtain e where "ThisImage fuel s1 = Inr (e, s')"
      by (auto simp: then_do_Inr_iff)
    ultimately show ?thesis using ThisImage_stuck by blast
  qed
qed

lemma session_step_stuck:
  assumes "session_step fuel s s'" and "stuck v s"
  shows "stuck v s'"
  using assms
proof (induction rule: session_step.induct)
  case (step_show s r s')
  then show ?case using ShowImage_stuck by blast
next
  case (step_next s r s')
  then show ?case using NextImage_stuck by blast
next
  case (step_prev s r s')
  then show ?case using PrevImage_stuck by blast
next
  case (step_this s r s')
  then show ?case using ThisImage_stuck by blast
next
  case (step_delete p s s')
  then show ?case using ReallyDelete_stuck by blast
next
  case (step_rotate p d s s')
  then show ?case using kept_stuck [OF ScaleAndRotate_kept] by blast
next
  case (step_fire t s s')
  then show ?case by (simp add: stuck_def)
next
  case (step_delay s d)
  then show ?case by (simp add: stuck_def)
next
  case (step_mode s m q dm)
  then show ?case by (simp add: stuck_def)
qed

lemma session_steps_stuck:
  assumes "(session_step fuel)\<^sup>*\<^sup>* s s'" and "stuck v s"
  shows "stuck v s'"
  using assms by (induction rule: rtranclp_induct) (auto intro: session_step_stuck)

text \<open>
  The timer over a whole session. \<open>F\<close> lists the timeouts that are firing; besides them
  at most one timeout is armed, the one whose id the flag \<open>gPendingTimeout\<close> holds.
\<close>

definition same_timer :: "state \<Rightarrow> state \<Rightarrow> bool" where
  "same_timer s s' \<longleftrightarrow>
     timeouts s' = timeouts s \<and> gPendingTimeout s' = gPendingTimeout s \<and>
     last_source_id s' = last_source_id s"

definition timer_inv :: "(int \<times> int) list \<Rightarrow> state \<Rightarrow> bool" where
  "timer_inv F s \<longleftrightarrow>
     list_all (\<lambda>x. fst x \<le> int (last_source_id s)) (timeouts s) \<and>
     (timeouts s = F \<or>
      (gPendingTimeout s \<noteq> 0 \<and> gPendingTimeout s \<notin> fst ` set F \<and>
       timeouts s \<noteq> [] \<and> butlast (timeouts s) = F \<and>
       fst (last (timeouts s)) = gPendingTimeout s))"

lemma timer_inv_iff:
  "timer_inv F s \<longleftrightarrow>
     list_all (\<lambda>x. fst x \<le> int (last_source_id s)) (timeouts s) \<and>
     (timeouts s = F \<or>
      (gPendingTimeout s \<noteq> 0 \<and> gPendingTimeout s \<notin> fst ` set F \<and>
       (\<exists>ms. timeouts s = F @ [(gPendingTimeout s, ms)])))"
proof -
  have "(timeouts s \<noteq> [] \<and> butlast (timeouts s) = F \<and> fst (last (timeouts s)) = gPendingTimeout s)
        \<longleftrightarrow> (\<exists>ms. timeouts s = F @ [(gPendingTimeout s, ms)])"
  proof
    assume a: "timeouts s \<noteq> [] \<and> butlast (timeouts s) = F \<and> fst (last (timeouts s)) = gPendingTimeout s"
    then have "timeouts s = F @ [last (timeouts s)]" by (metis append_butlast_last_id)
    moreover have "last (timeouts s) = (gPendingTimeout s, snd (last (timeouts s)))"
      using a by (metis prod.collapse)
    ultimately show "\<exists>ms. timeouts s = F @ [(gPendingTimeout s, ms)]" by metis
  next
    assume "\<exists>ms. timeouts s = F @ [(gPendingTimeout s, ms)]"
    then show "timeouts s \<noteq> [] \<and> butlast (timeouts s) = F \<and> fst (last (timeouts s)) = gPendingTimeout s"
      by auto
  qed
  then show ?thesis unfolding timer_inv_def by blast
qed

lemma timer_inv_same: "same_timer s s' \<Longrightarrow> timer_inv F s \<Longrightarrow> timer_inv F s'"
  by (simp add: same_timer_def timer_inv_iff)

lemma timer_inv_same_all: "\<forall>s s'. same_timer s s' \<longrightarrow> timer_inv F s \<longrightarrow> timer_inv F s'"
  using timer_inv_same by blast

lemma kept_same_timer: "kept s s' \<Longrightarrow> same_timer s s'"
  by (simp add: kept_def same_timer_def)

lemma ShowImage_timer_inv:
  assumes "ShowImage s = Inr (r, s')" and "timer_inv F s"
  shows "timer_inv F s'"
proof -
  from ShowImage_Inr [OF assms(1)] obtain s1 cur where
    k: "kept s s1" and c: "if 0 < gDelaySeconds s \<and> gPendingTimeout s = 0
            then deref s1 (gCurImage s) = Some cur \<and>
                 (if next_img cur \<noteq> 0 \<or> next_img cur \<noteq> gFirstImage s
                  then armed s1 s' else s' = s1)
            else s' = s1"
    by blast
  have i1: "timer_inv F s1" using timer_inv_same [OF kept_same_timer [OF k] assms(2)] .
  consider "s' = s1" | "gPendingTimeout s = 0" "armed s1 s'"
    using c by (auto split: if_splits)
  then show ?thesis
  proof cases
    case 1
    then show ?thesis using i1 by simp
  next
    case 2
    have p1: "gPendingTimeout s1 = 0" using k 2(1) by (simp add: kept_def)
    then have t1: "timeouts s1 = F" using i1 by (auto simp: timer_inv_iff)
    have b1: "list_all (\<lambda>x. fst x \<le> int (last_source_id s1)) F"
      using i1 t1 by (simp add: timer_inv_iff)
    have a: "timeouts s' = F @ [(int (Suc (last_source_id s1)), gDelaySeconds s1 * 1000)]"
      "gPendingTimeout s' = int (Suc (last_source_id s1))"
      "last_source_id s' = Suc (last_source_id s1)"
      using 2(2) t1 by (simp_all add: armed_def)
    have fresh: "int (Suc (last_source_id s1)) \<notin> fst ` set F"
      using b1 by (auto simp: list_all_iff)
    have "list_all (\<lambda>x. fst x \<le> int (Suc (last_source_id s1))) F"
      using b1 by (auto simp: list_all_iff)
    then show ?thesis
      unfolding timer_inv_iff a using fresh by simp
  qed
qed

lemma ShowImage_timer_inv_all:
  "\<forall>s r s'. ShowImage s = Inr (r, s') \<longrightarrow> timer_inv F s \<longrightarrow> timer_inv F s'"
  using ShowImage_timer_inv by blast

lemma next_cursor_same:
  assumes "next_cursor s = Inr (Some s1)"
  shows "same_timer s s1"
  using assms by (auto simp: next_cursor_def same_timer_def split: if_splits option.splits)

lemma prev_cursor_same:
  assumes "prev_cursor s = Inr (Some s1)"
  shows "same_timer s s1"
  using assms by (auto simp: prev_cursor_def same_timer_def split: if_splits option.splits)

text \<open>
  A property of the timer that \<open>ShowImage\<close> keeps is kept by the functions of the image
  list, which touch the timer through \<open>ShowImage\<close> only.
\<close>

lemma NextImage_timer:
  assumes d: "\<forall>s s'. same_timer s s' \<longrightarrow> P s \<longrightarrow> P s'"
    and sh: "\<forall>s r s'. ShowImage s = Inr (r, s') \<longrightarrow> P s \<longrightarrow> P s'"
    and "NextImage fuel s = Inr (r, s')" and "P s"
  shows "P s'"
  using assms(3,4)
proof (induction fuel arbitrary: s)
  case 0
  then show ?case by simp
next
  case (Suc n)
  show ?case
  proof (cases "next_cursor s")
    case (Inl f)
    then show ?thesis using Suc.prems by simp
  next
    case (Inr o1)
    show ?thesis
    proof (cases o1)
      case None
      then show ?thesis using Suc.prems Inr by simp
    next
      case (Some s1)
      have st1: "P s1" using d next_cursor_same Inr Some Suc.prems(2) by blast
      from Suc.prems(1) Inr Some obtain e s2 where
        L: "LoadImageAndRotate (gCurImage s1) s1 = Inr (e, s2)"
        and rest: "(if e \<noteq> 0 then NextImage n s2
                    else (case ShowImage s2 of Inl f \<Rightarrow> Inl f | Inr (r, s3) \<Rightarrow> Inr (0, s3)))
                   = Inr (r, s')"
        by (auto split: sum.splits)
      have st2: "P s2" using d kept_same_timer [OF LoadImageAndRotate_kept [OF L]] st1 by blast
      show ?thesis
      proof (cases "e \<noteq> 0")
        case True
        then show ?thesis using rest Suc.IH st2 by simp
      next
        case False
        with rest obtain r3 where "ShowImage s2 = Inr (r3, s')" by (auto split: sum.splits)
        then show ?thesis using sh st2 by blast
      qed
    qed
  qed
qed

lemma PrevImage_timer:
  assumes d: "\<forall>s s'. same_timer s s' \<longrightarrow> P s \<longrightarrow> P s'"
    and sh: "\<forall>s r s'. ShowImage s = Inr (r, s') \<longrightarrow> P s \<longrightarrow> P s'"
    and "PrevImage fuel s = Inr (r, s')" and "P s"
  shows "P s'"
  using assms(3,4)
proof (induction fuel arbitrary: s)
  case 0
  then show ?case by simp
next
  case (Suc n)
  show ?case
  proof (cases "prev_cursor s")
    case (Inl f)
    then show ?thesis using Suc.prems by simp
  next
    case (Inr o1)
    show ?thesis
    proof (cases o1)
      case None
      then show ?thesis using Suc.prems Inr by simp
    next
      case (Some s1)
      have st1: "P s1" using d prev_cursor_same Inr Some Suc.prems(2) by blast
      from Suc.prems(1) Inr Some obtain e s2 where
        L: "LoadImageAndRotate (gCurImage s1) s1 = Inr (e, s2)"
        and rest: "(if e \<noteq> 0 then PrevImage n s2
                    else (case ShowImage s2 of Inl f \<Rightarrow> Inl f | Inr (r, s3) \<Rightarrow> Inr (0, s3)))
                   = Inr (r, s')"
        by (auto split: sum.splits)
      have st2: "P s2" using d kept_same_timer [OF LoadImageAndRotate_kept [OF L]] st1 by blast
      show ?thesis
      proof (cases "e \<noteq> 0")
        case True
        then show ?thesis using rest Suc.IH st2 by simp
      next
        case False
        with rest obtain r3 where "ShowImage s2 = Inr (r3, s')" by (auto split: sum.splits)
        then show ?thesis using sh st2 by blast
      qed
    qed
  qed
qed

lemma ThisImage_timer:
  assumes d: "\<forall>s s'. same_timer s s' \<longrightarrow> P s \<longrightarrow> P s'"
    and sh: "\<forall>s r s'. ShowImage s = Inr (r, s') \<longrightarrow> P s \<longrightarrow> P s'"
    and "ThisImage fuel s = Inr (r, s')" and "P s"
  shows "P s'"
proof -
  from assms(3) obtain e s1 where L: "LoadImageAndRotate (gCurImage s) s = Inr (e, s1)"
    and rest: "(if e \<noteq> 0 then NextImage fuel s1
                else then_do (ShowImage s1) (\<lambda>(r, s2). Inr (0, s2))) = Inr (r, s')"
    by (auto simp: ThisImage_def then_do_Inr_iff)
  have st1: "P s1" using d kept_same_timer [OF LoadImageAndRotate_kept [OF L]] assms(4) by blast
  show ?thesis
  proof (cases "e \<noteq> 0")
    case True
    then have "NextImage fuel s1 = Inr (r, s')" using rest by simp
    then show ?thesis using NextImage_timer [of P, OF d sh _ st1] by blast
  next
    case False
    with rest obtain r3 where "ShowImage s1 = Inr (r3, s')" by (auto simp: then_do_Inr_iff)
    then show ?thesis using sh st1 by blast
  qed
qed

lemma store_same:
  assumes "store p f s = Inr s'"
  shows "same_timer s s'"
  using assms by (auto simp: store_def set_img_def same_timer_def split: option.splits)

lemma same_timer_trans: "same_timer s s1 \<Longrightarrow> same_timer s1 s2 \<Longrightarrow> same_timer s s2"
  by (simp add: same_timer_def)

lemma disconnect_same:
  assumes "disconnect p s = Inr s'"
  shows "same_timer s s'"
  using assms
  by (auto simp: disconnect_def Let_def then_do_Inr_iff emit_def same_timer_def
      dest!: store_same split: if_splits)

lemma delete_record_same:
  assumes "delete_record p s = Inr (Some s')"
  shows "same_timer s s'"
  using assms
  by (auto simp: delete_record_def then_do_Inr_iff FreePhoImage_def emit_def same_timer_def
      dest!: disconnect_same split: if_splits)

lemma ReallyDelete_timer:
  assumes d: "\<forall>s s'. same_timer s s' \<longrightarrow> P s \<longrightarrow> P s'"
    and sh: "\<forall>s r s'. ShowImage s = Inr (r, s') \<longrightarrow> P s \<longrightarrow> P s'"
    and "ReallyDelete fuel p s = Inr s'" and "P s"
  shows "P s'"
proof -
  from assms(3) obtain o1 where D: "delete_record p s = Inr o1"
    and rest: "(case o1 of None \<Rightarrow> Inr s
                | Some s1 \<Rightarrow> then_do (ThisImage fuel s1) (\<lambda>(e, s2). Inr s2)) = Inr s'"
    by (auto simp: ReallyDelete_def then_do_Inr_iff)
  show ?thesis
  proof (cases o1)
    case None
    then show ?thesis using rest assms(4) by simp
  next
    case (Some s1)
    then have "P s1" using d delete_record_same D assms(4) by blast
    moreover from rest Some obtain e where "ThisImage fuel s1 = Inr (e, s')"
      by (auto simp: then_do_Inr_iff)
    ultimately show ?thesis using ThisImage_timer [of P, OF d sh] by blast
  qed
qed

text \<open>A timeout that fires, in a state where it is the one armed.\<close>

lemma fire_timeout_timer_inv:
  assumes "t \<in> set (timeouts s)" and "fire_timeout fuel t s = Inr s'" and "timer_inv [] s"
  shows "timer_inv [] s'"
proof -
  from assms(1,3) have ts: "timeouts s = [t]" and p: "gPendingTimeout s \<noteq> 0"
    and b: "fst t \<le> int (last_source_id s)"
    by (auto simp: timer_inv_iff)
  show ?thesis
  proof (cases "gDelaySeconds s = 0")
    case True
    then have "s' = s\<lparr>timeouts := []\<rparr>"
      using assms(2) ts by (simp add: fire_timeout_def DelayTimer_def)
    then show ?thesis by (simp add: timer_inv_iff)
  next
    case False
    let ?ini = "s\<lparr>gPendingTimeout := 0\<rparr>"
    from assms(2) False obtain r s1 where N: "NextImage fuel ?ini = Inr (r, s1)"
      and s': "s' = s1\<lparr>timeouts := removeAll t (timeouts s1)\<rparr>"
      by (auto simp: fire_timeout_def DelayTimer_def then_do_Inr_iff)
    have i0: "timer_inv [t] ?ini" using ts b by (simp add: timer_inv_iff)
    have i1: "timer_inv [t] s1"
      using NextImage_timer [of "timer_inv [t]", OF timer_inv_same_all ShowImage_timer_inv_all N i0] .
    then consider "timeouts s1 = [t]"
      | ms where "gPendingTimeout s1 \<noteq> 0" "gPendingTimeout s1 \<noteq> fst t"
        "timeouts s1 = [t, (gPendingTimeout s1, ms)]"
      by (auto simp: timer_inv_iff)
    then show ?thesis
    proof cases
      case 1
      then show ?thesis unfolding s' by (simp add: timer_inv_iff)
    next
      case 2
      let ?n = "(gPendingTimeout s1, ms)"
      have ne: "?n \<noteq> t" using 2(2) by auto
      have r: "removeAll t (timeouts s1) = [?n]"
        using ne by (subst 2(3)) simp
      have bn: "fst ?n \<le> int (last_source_id s1)"
        using i1 2(3) by (simp add: timer_inv_iff)
      show ?thesis unfolding s' timer_inv_iff using r 2(1) bn by simp
    qed
  qed
qed

lemma session_step_timer_inv:
  assumes "session_step fuel s s'" and "timer_inv [] s"
  shows "timer_inv [] s'"
  using assms
proof (induction rule: session_step.induct)
  case (step_show s r s')
  then show ?case using ShowImage_timer_inv by blast
next
  case (step_next s r s')
  then show ?case
    using NextImage_timer [of "timer_inv []", OF timer_inv_same_all ShowImage_timer_inv_all] by blast
next
  case (step_prev s r s')
  then show ?case
    using PrevImage_timer [of "timer_inv []", OF timer_inv_same_all ShowImage_timer_inv_all] by blast
next
  case (step_this s r s')
  then show ?case
    using ThisImage_timer [of "timer_inv []", OF timer_inv_same_all ShowImage_timer_inv_all] by blast
next
  case (step_delete p s s')
  then show ?case
    using ReallyDelete_timer [of "timer_inv []", OF timer_inv_same_all ShowImage_timer_inv_all] by blast
next
  case (step_rotate p d s s')
  then show ?case using timer_inv_same [OF kept_same_timer [OF ScaleAndRotate_kept]] by blast
next
  case (step_fire t s s')
  then show ?case using fire_timeout_timer_inv by blast
next
  case (step_delay s d)
  then show ?case by (simp add: timer_inv_iff)
next
  case (step_mode s m q dm)
  then show ?case by (simp add: timer_inv_iff)
qed

lemma session_steps_timer_inv:
  assumes "(session_step fuel)\<^sup>*\<^sup>* s s'" and "timer_inv [] s"
  shows "timer_inv [] s'"
  using assms by (induction rule: rtranclp_induct) (auto intro: session_step_timer_inv)

text \<open>
  Claim C10. Take a session of the viewer that starts with no timeout armed, and a
  state \<open>s\<close> of it in which the delay is zero and a timeout \<open>t\<close> is armed and fires. Then
  the flag \<open>gPendingTimeout\<close> is set, \<open>DelayTimer\<close> returns \<open>FALSE\<close> and leaves the state as
  it is: no advance, the flag still set. GLib drops \<open>t\<close>, and from there on, whatever steps
  the session takes, changes of the delay among them, no timeout is armed and the flag
  keeps its value.
\<close>

theorem C10_timer_never_rearmed:
  assumes "timeouts s0 = []" and "(session_step fuel)\<^sup>*\<^sup>* s0 s"
    and "t \<in> set (timeouts s)" and "gDelaySeconds s = 0"
  shows "gPendingTimeout s \<noteq> 0 \<and> DelayTimer fuel s = Inr (False, s) \<and>
         fire_timeout fuel t s = Inr (s\<lparr>timeouts := []\<rparr>) \<and>
         ((session_step fuel)\<^sup>*\<^sup>* (s\<lparr>timeouts := []\<rparr>) s' \<longrightarrow>
            timeouts s' = [] \<and> gPendingTimeout s' = gPendingTimeout s)"
proof -
  have "timer_inv [] s0" using assms(1) by (simp add: timer_inv_iff)
  then have i: "timer_inv [] s" using session_steps_timer_inv assms(2) by blast
  with assms(3) have ts: "timeouts s = [t]" and p: "gPendingTimeout s \<noteq> 0"
    by (auto simp: timer_inv_iff)
  have d: "DelayTimer fuel s = Inr (False, s)" using assms(4) by (simp add: DelayTimer_def)
  have f: "fire_timeout fuel t s = Inr (s\<lparr>timeouts := []\<rparr>)"
    by (simp add: fire_timeout_def d ts)
  have "timeouts s' = [] \<and> gPendingTimeout s' = gPendingTimeout s"
    if st: "(session_step fuel)\<^sup>*\<^sup>* (s\<lparr>timeouts := []\<rparr>) s'"
  proof -
    have "stuck (gPendingTimeout s) (s\<lparr>timeouts := []\<rparr>)" using p by (simp add: stuck_def)
    from session_steps_stuck [OF st this] show ?thesis by (simp add: stuck_def)
  qed
  with p d f show ?thesis by blast
qed

lemma ShowImage_slideshow_of_one:
  "\<exists>s'. ShowImage (st_a\<lparr>gDelaySeconds := 5\<rparr>) = Inr (0, s') \<and>
         gPendingTimeout s' = 1 \<and> timeouts s' = [(1, 5000)]"
proof -
  have d: "deref (st_a\<lparr>gDelaySeconds := 5\<rparr>) 16 = Some img_a"
    by (simp add: st_a_def deref_def)
  have m: "gScaleMode (st_a\<lparr>gDelaySeconds := 5\<rparr>) = PHO_SCALE_FULLSIZE"
    by (simp add: st_a_def)
  have c: "gCurImage (st_a\<lparr>gDelaySeconds := 5\<rparr>) = 16" by (simp add: st_a_def)
  note S = ScaleAndRotate_st_a [OF m d]
  show ?thesis
    unfolding ShowImage_def c S then_do_simps
    by (simp add: st_a_def img_a_def emit_def set_img_def deref_def g_timeout_add_def in_int_def)
qed

theorem C10_timer_never_rearmed_witness:
  "\<exists>s s'. timeouts (st_a\<lparr>gDelaySeconds := 5\<rparr>) = [] \<and>
     (session_step 3)\<^sup>*\<^sup>* (st_a\<lparr>gDelaySeconds := 5\<rparr>) s \<and>
     (1, 5000) \<in> set (timeouts s) \<and> gDelaySeconds s = 0 \<and>
     gPendingTimeout s = 1 \<and> DelayTimer 3 s = Inr (False, s) \<and>
     fire_timeout 3 (1, 5000) s = Inr (s\<lparr>timeouts := []\<rparr>) \<and>
     (session_step 3)\<^sup>*\<^sup>* (s\<lparr>timeouts := []\<rparr>) s' \<and>
     gDelaySeconds s' = 5 \<and> timeouts s' = [] \<and> gPendingTimeout s' = 1"
proof -
  let ?ini = "st_a\<lparr>gDelaySeconds := 5\<rparr>"
  from ShowImage_slideshow_of_one obtain sa where
    sa: "ShowImage ?ini = Inr (0, sa)" "gPendingTimeout sa = 1" "timeouts sa = [(1, 5000)]"
    by blast
  let ?s = "sa\<lparr>gDelaySeconds := 0\<rparr>"
  let ?s' = "?s\<lparr>timeouts := [], gDelaySeconds := 5\<rparr>"
  have t0: "timeouts ?ini = []" by (simp add: st_a_def)
  have "session_step 3 ?ini sa" using sa(1) by (rule step_show)
  moreover have "session_step 3 sa ?s" by (rule step_delay)
  ultimately have r1: "(session_step 3)\<^sup>*\<^sup>* ?ini ?s" by auto
  have "session_step 3 (?s\<lparr>timeouts := []\<rparr>) ?s'"
    using step_delay [of 3 "?s\<lparr>timeouts := []\<rparr>" 5] by simp
  then have r2: "(session_step 3)\<^sup>*\<^sup>* (?s\<lparr>timeouts := []\<rparr>) ?s'" by auto
  have h: "(1, 5000) \<in> set (timeouts ?s)" "gDelaySeconds ?s = 0" using sa(3) by simp_all
  from C10_timer_never_rearmed [OF t0 r1 h, of ?s'] r2
  have c: "DelayTimer 3 ?s = Inr (False, ?s)" "fire_timeout 3 (1, 5000) ?s = Inr (?s\<lparr>timeouts := []\<rparr>)"
    by blast+
  have e: "gPendingTimeout ?s = 1" "gDelaySeconds ?s' = 5" "timeouts ?s' = []"
    "gPendingTimeout ?s' = 1"
    using sa(2) by simp_all
  have "timeouts ?ini = [] \<and> (session_step 3)\<^sup>*\<^sup>* ?ini ?s \<and>
     (1, 5000) \<in> set (timeouts ?s) \<and> gDelaySeconds ?s = 0 \<and>
     gPendingTimeout ?s = 1 \<and> DelayTimer 3 ?s = Inr (False, ?s) \<and>
     fire_timeout 3 (1, 5000) ?s = Inr (?s\<lparr>timeouts := []\<rparr>) \<and>
     (session_step 3)\<^sup>*\<^sup>* (?s\<lparr>timeouts := []\<rparr>) ?s' \<and>
     gDelaySeconds ?s' = 5 \<and> timeouts ?s' = [] \<and> gPendingTimeout ?s' = 1"
    using t0 r1 h c r2 e by blast
  then show ?thesis by (rule_tac x = ?s in exI, rule_tac x = ?s' in exI)
qed

end
